theory Spec2Isabelle
  imports Main "HOL-Library.Word"
begin

section \<open>The telemetry event (package v1alpha1)\<close>

text \<open>
  A \<^verbatim>\<open>time.Time\<close> is an abstract instant. \<^verbatim>\<open>TelemetryEventKind\<close> is a string type in
  the source, so \<open>Kind\<close> is a string. A nil \<^verbatim>\<open>*time.Time\<close> is \<open>None\<close>.
\<close>

type_synonym instant = int

record StackFrame =
  File :: string
  Function :: string
  Line :: "32 word"
  Column :: "32 word"

record TelemetryEvent =
  SessionID :: string
  Timestamp :: "instant option"
  Kind :: string
  Name :: string
  Message :: string
  Values :: "string \<rightharpoonup> string"
  StackTrace :: "StackFrame list"
  Tags :: "string list"

section \<open>Errors\<close>

text \<open>
  Go errors as values. \<open>Wrapf m e\<close> is \<^verbatim>\<open>fmt.Errorf(m + ": %w", e)\<close>;
  \<open>UnexpectedStatus c\<close> is \<^verbatim>\<open>fmt.Errorf("unexpected status code: %d", c)\<close>;
  \<open>Opaque\<close> is any other error of the environment. \<open>errors_Is\<close> follows the
  chain of wrapped errors as \<^verbatim>\<open>errors.Is\<close> does.
\<close>

datatype error =
    Canceled
  | DeadlineExceeded
  | Wrapf string error
  | UnexpectedStatus int
  | Opaque string

fun errors_Is :: "error \<Rightarrow> error \<Rightarrow> bool" where
  "errors_Is (Wrapf m e) target = (Wrapf m e = target \<or> errors_Is e target)"
| "errors_Is e target = (e = target)"

section \<open>The delivery client (TelemetryEventClient)\<close>

text \<open>
  What the environment answers to one delivery: whether \<^verbatim>\<open>json.Marshal\<close> fails,
  whether \<^verbatim>\<open>http.NewRequestWithContext\<close> fails, and what \<^verbatim>\<open>httpClient.Do\<close> returns (a
  transport error, or a response with its status code).
\<close>

record http_env =
  marshal_err :: "error option"
  request_err :: "error option"
  do_result :: "error + int"

text \<open>
  The client keeps, next to its base URL, the trace of the invocations of its
  \<^verbatim>\<open>ReportEvent\<close>: the event it was given and whether the context it was given was
  already done.
\<close>

record TelemetryEventClient =
  baseURL :: string
  calls :: "(bool \<times> TelemetryEvent) list"

definition client_ReportEvent ::
  "http_env \<Rightarrow> bool \<Rightarrow> TelemetryEvent \<Rightarrow> TelemetryEventClient
     \<Rightarrow> error option \<times> TelemetryEventClient" where
  "client_ReportEvent h ctx event c =
     (let c' = c\<lparr>calls := calls c @ [(ctx, event)]\<rparr> in
      case marshal_err h of
        Some e \<Rightarrow> (Some (Wrapf ''failed to marshal event'' e), c')
      | None \<Rightarrow>
          (case request_err h of
             Some e \<Rightarrow> (Some (Wrapf ''failed to create request'' e), c')
           | None \<Rightarrow>
               (case do_result h of
                  Inl e \<Rightarrow> (Some (Wrapf ''failed to send request'' e), c')
                | Inr code \<Rightarrow>
                    if code \<noteq> 200 then (Some (UnexpectedStatus code), c')
                    else (None, c'))))"

section \<open>Event objects\<close>

text \<open>
  \<^verbatim>\<open>ReportEvent\<close> is given a pointer to an event and writes to the object it points
  to; the closure it hands to the group keeps the pointer, and the delivery
  client reads the object when the goroutine runs. The events of the host
  program live in a store, from pointers to events; a pointer given to
  \<^verbatim>\<open>ReportEvent\<close> is not nil.
\<close>

type_synonym ptr = nat

type_synonym heap = "ptr \<Rightarrow> TelemetryEvent"

section \<open>The task group (errgroup.Group with a limit and a context)\<close>

text \<open>
  The two closures the reporter hands to the group: the delivery of the event a
  pointer points to (\<^verbatim>\<open>ReportEvent\<close>) and the function returning
  \<^verbatim>\<open>context.Canceled\<close> (\<^verbatim>\<open>Close\<close>).
\<close>

datatype task = Deliver ptr | Abort

text \<open>
  \<open>sem\<close> is the capacity of the token channel set by \<^verbatim>\<open>SetLimit\<close>; \<open>running\<close> are
  the goroutines of the group, each holding one token and one count of the wait
  group; \<open>err\<close> is the first non-nil error returned by a task (set under
  \<^verbatim>\<open>errOnce\<close>); \<open>cancelled\<close> says whether the context returned by \<^verbatim>\<open>WithContext\<close>
  (\<^verbatim>\<open>reportsCtx\<close>) is done.
\<close>

record Group =
  sem :: nat
  running :: "task list"
  err :: "error option"
  cancelled :: bool

definition WithContext :: "bool \<Rightarrow> Group" where
  "WithContext parent_done =
     \<lparr>sem = 0, running = [], err = None, cancelled = parent_done\<rparr>"

definition SetLimit :: "nat \<Rightarrow> Group \<Rightarrow> Group" where
  "SetLimit n g = g\<lparr>sem := n\<rparr>"

text \<open>\<^verbatim>\<open>TryGo\<close> takes a token only if one is free, and never blocks.\<close>

definition TryGo :: "task \<Rightarrow> Group \<Rightarrow> bool \<times> Group" where
  "TryGo f g =
     (if length (running g) < sem g then (True, g\<lparr>running := running g @ [f]\<rparr>)
      else (False, g))"

text \<open>\<^verbatim>\<open>Go\<close> blocks until a token is free: \<open>None\<close> is "blocked in this state".\<close>

definition Go :: "task \<Rightarrow> Group \<Rightarrow> Group option" where
  "Go f g =
     (if length (running g) < sem g then Some (g\<lparr>running := running g @ [f]\<rparr>)
      else None)"

text \<open>
  \<^verbatim>\<open>Wait\<close> blocks until no goroutine of the group runs, then cancels the context
  and returns the stored error.
\<close>

definition Wait :: "Group \<Rightarrow> (error option \<times> Group) option" where
  "Wait g =
     (if running g = [] then Some (err g, g\<lparr>cancelled := True\<rparr>) else None)"

text \<open>
  The end of goroutine \<open>i\<close> whose function returned \<open>e\<close>: a non-nil error is
  stored and the context cancelled, once; then the token and the count are
  given back.
\<close>

definition finish :: "nat \<Rightarrow> error option \<Rightarrow> Group \<Rightarrow> Group" where
  "finish i e g =
     (let g1 = (case e of
                  None \<Rightarrow> g
                | Some x \<Rightarrow> if err g = None then g\<lparr>err := Some x, cancelled := True\<rparr> else g)
      in g1\<lparr>running := take i (running g1) @ drop (Suc i) (running g1)\<rparr>)"

section \<open>The reporter\<close>

definition doNotTrackEnvName :: string where
  "doNotTrackEnvName = ''DO_NOT_TRACK''"

definition maxConcurrentReports :: nat where
  "maxConcurrentReports = 16"

record Configuration =
  conf_BaseURL :: string
  conf_AuthToken :: string
  conf_Tags :: "string list"

datatype level = Debug | Warn

type_synonym log_entry = "level \<times> string \<times> error option"

text \<open>
  \<open>logger\<close> is what has been logged so far. The context \<^verbatim>\<open>reportsCtx\<close> is the
  \<open>cancelled\<close> field of the group, which owns its cancel function.
\<close>

record Reporter =
  logger :: "log_entry list"
  client :: TelemetryEventClient
  authToken :: string
  sessionID :: string
  tags :: "string list"
  reports :: Group
  shuttingDown :: bool

definition log :: "level \<Rightarrow> string \<Rightarrow> error option \<Rightarrow> Reporter \<Rightarrow> Reporter" where
  "log l msg e r = r\<lparr>logger := logger r @ [(l, msg, e)]\<rparr>"

text \<open>
  \<open>ctx\<close> says whether the context given to \<^verbatim>\<open>NewReporter\<close> is already done;
  \<open>sid\<close> is the identifier returned by \<^verbatim>\<open>util.GenerateID(16)\<close>, whose code is not
  part of the sources at hand.
\<close>

definition NewReporter :: "bool \<Rightarrow> string \<Rightarrow> Configuration \<Rightarrow> Reporter" where
  "NewReporter ctx sid conf =
     \<lparr>logger = [],
      client = \<lparr>baseURL = conf_BaseURL conf, calls = []\<rparr>,
      authToken = conf_AuthToken conf,
      sessionID = sid,
      tags = conf_Tags conf,
      reports = SetLimit maxConcurrentReports (WithContext ctx),
      shuttingDown = False\<rparr>"

type_synonym environ = "string \<rightharpoonup> string"

definition os_Getenv :: "environ \<Rightarrow> string \<Rightarrow> string" where
  "os_Getenv env k = (case env k of None \<Rightarrow> [] | Some v \<Rightarrow> v)"

text \<open>
  \<^verbatim>\<open>ReportEvent\<close> on the pointer \<open>event\<close>, in the store \<open>mem\<close>: the result is the
  store, in which the object has been written to, and the reporter. It has no
  error result and no blocking call.
\<close>

definition ReportEvent ::
  "environ \<Rightarrow> instant \<Rightarrow> ptr \<Rightarrow> heap \<Rightarrow> Reporter \<Rightarrow> heap \<times> Reporter" where
  "ReportEvent env now event mem r =
     (if os_Getenv env doNotTrackEnvName \<noteq> []
      then (mem, log Debug ''Telemetry is disabled, dropping event'' None r)
      else
        let mem = mem(event := (mem event)\<lparr>Timestamp := Some now\<rparr>);
            mem = (if SessionID (mem event) = []
                   then mem(event := (mem event)\<lparr>SessionID := sessionID r\<rparr>)
                   else mem);
            mem = mem(event := (mem event)\<lparr>Tags := Tags (mem event) @ tags r\<rparr>)
        in if shuttingDown r
           then (mem, log Debug ''Shutting down, dropping event'' None r)
           else
             let (started, g) = TryGo (Deliver event) (reports r);
                 r = r\<lparr>reports := g\<rparr>
             in if \<not> started
                then (mem, log Warn ''Too many in-flight telemetry reports, dropping event'' None r)
                else (mem, r))"

text \<open>
  The function a goroutine of the group runs, in the store as it is then. A
  delivery derives its context from \<^verbatim>\<open>reportsCtx\<close> (so it is done from the start
  when \<^verbatim>\<open>reportsCtx\<close> is), calls the client on the object its pointer points to,
  logs a failure at debug level and returns nil.
\<close>

fun task_body :: "http_env \<Rightarrow> task \<Rightarrow> heap \<Rightarrow> Reporter \<Rightarrow> error option \<times> Reporter" where
  "task_body h (Deliver event) mem r =
     (let ctx = cancelled (reports r);
          (e, c) = client_ReportEvent h ctx (mem event) (client r);
          r = r\<lparr>client := c\<rparr>
      in case e of
           Some x \<Rightarrow> (None, log Debug ''Failed to report event'' (Some x) r)
         | None \<Rightarrow> (None, r))"
| "task_body h Abort mem r = (Some Canceled, r)"

text \<open>Goroutine \<open>i\<close> of the group runs to its end, the environment answering \<open>h\<close>.\<close>

definition goroutine :: "nat \<Rightarrow> http_env \<Rightarrow> heap \<Rightarrow> Reporter \<Rightarrow> Reporter" where
  "goroutine i h mem r =
     (if i < length (running (reports r))
      then let (e, r1) = task_body h (running (reports r) ! i) mem r
           in r1\<lparr>reports := finish i e (reports r1)\<rparr>
      else r)"

section \<open>Blocking calls\<close>

text \<open>
  While the caller of \<^verbatim>\<open>Go\<close> or \<^verbatim>\<open>Wait\<close> is blocked, the goroutines of the group
  go on. A scheduler says, from the state of the group, which goroutine ends
  next and what the environment answered to it. The store is the one the
  blocked call started in.
\<close>

type_synonym scheduler = "Group \<Rightarrow> nat \<times> http_env"

definition next_goroutine :: "scheduler \<Rightarrow> heap \<Rightarrow> Reporter \<Rightarrow> Reporter" where
  "next_goroutine sched mem r =
     goroutine (fst (sched (reports r)) mod length (running (reports r)))
       (snd (sched (reports r))) mem r"

definition Go_op :: "task \<Rightarrow> Reporter \<Rightarrow> (unit \<times> Reporter) option" where
  "Go_op f r = map_option (\<lambda>g. ((), r\<lparr>reports := g\<rparr>)) (Go f (reports r))"

definition Wait_op :: "Reporter \<Rightarrow> (error option \<times> Reporter) option" where
  "Wait_op r = map_option (\<lambda>(e, g). (e, r\<lparr>reports := g\<rparr>)) (Wait (reports r))"

text \<open>
  A blocking call returns at once when it can; otherwise a goroutine ends and
  the call is tried again. With no goroutine left it stays blocked for ever:
  \<open>None\<close>.
\<close>

function await ::
  "scheduler \<Rightarrow> heap \<Rightarrow> (Reporter \<Rightarrow> ('a \<times> Reporter) option) \<Rightarrow> Reporter
     \<Rightarrow> ('a \<times> Reporter) option" where
  "await sched mem op r =
     (case op r of
        Some res \<Rightarrow> Some res
      | None \<Rightarrow>
          if running (reports r) = [] then None
          else await sched mem op (next_goroutine sched mem r))"
  by pat_completeness auto
termination
proof (relation "measure (\<lambda>(sched, mem, op, r). length (running (reports r)))")
  show "wf (measure (\<lambda>(sched, mem, op, r). length (running (reports r))))"
    by simp
next
  fix sched :: scheduler and mem :: heap and op :: "Reporter \<Rightarrow> ('a \<times> Reporter) option"
    and r :: Reporter
  assume busy: "running (reports r) \<noteq> []"
  define i where "i = fst (sched (reports r)) mod length (running (reports r))"
  have "i < length (running (reports r))"
    using busy by (simp add: i_def)
  then have "length (running (reports (goroutine i (snd (sched (reports r))) mem r)))
               < length (running (reports r))"
    by (cases "running (reports r) ! i")
       (auto simp: goroutine_def finish_def log_def client_ReportEvent_def Let_def
             split: option.splits sum.splits prod.splits)
  then show "((sched, mem, op, next_goroutine sched mem r), (sched, mem, op, r))
               \<in> measure (\<lambda>(sched, mem, op, r). length (running (reports r)))"
    by (simp add: next_goroutine_def i_def)
qed

declare await.simps [simp del]

section \<open>Close and Shutdown\<close>

text \<open>
  What \<^verbatim>\<open>Close\<close> and \<^verbatim>\<open>Shutdown\<close> both return for the result \<open>e\<close> of \<^verbatim>\<open>Wait\<close>:
  \<^verbatim>\<open>if err != nil && !errors.Is(err, context.Canceled) { return err }; return nil\<close>.
\<close>

definition not_canceled :: "error option \<Rightarrow> error option" where
  "not_canceled e =
     (case e of
        Some x \<Rightarrow> if \<not> errors_Is x Canceled then Some x else None
      | None \<Rightarrow> None)"

definition Close :: "scheduler \<Rightarrow> heap \<Rightarrow> Reporter \<Rightarrow> (error option \<times> Reporter) option" where
  "Close sched mem r =
     (case await sched mem (Go_op Abort) r of
        None \<Rightarrow> None
      | Some (u, r1) \<Rightarrow>
          (case await sched mem Wait_op r1 of
             None \<Rightarrow> None
           | Some (e, r2) \<Rightarrow> Some (not_canceled e, r2)))"

text \<open>
  The \<^verbatim>\<open>select\<close> of \<^verbatim>\<open>Shutdown\<close>. \<open>ctx\<close> is the number of goroutines that still end
  before the context given to \<^verbatim>\<open>Shutdown\<close> is done (\<open>Some 0\<close>: it is done now,
  \<open>None\<close>: it is never done). The channel \<^verbatim>\<open>reportsDone\<close> receives the result of
  \<^verbatim>\<open>Wait\<close> once no goroutine of the group runs. When both cases are ready the
  \<^verbatim>\<open>select\<close> takes either: \<open>tie\<close> says whether it takes \<^verbatim>\<open>ctx.Done()\<close>.
\<close>

function shutdown_select ::
  "scheduler \<Rightarrow> bool \<Rightarrow> nat option \<Rightarrow> heap \<Rightarrow> Reporter
     \<Rightarrow> (error option \<times> Reporter) option" where
  "shutdown_select sched tie ctx mem r =
     (if ctx = Some 0 \<and> (running (reports r) \<noteq> [] \<or> tie)
      then Close sched mem r
      else
        case Wait_op r of
          Some (e, r1) \<Rightarrow> Some (not_canceled e, r1)
        | None \<Rightarrow>
            shutdown_select sched tie (map_option (\<lambda>n. n - 1) ctx) mem
              (next_goroutine sched mem r))"
  by pat_completeness auto
termination
proof (relation "measure (\<lambda>(sched, tie, ctx, mem, r). length (running (reports r)))")
  show "wf (measure (\<lambda>(sched, tie, ctx, mem, r). length (running (reports r))))"
    by simp
next
  fix sched :: scheduler and tie :: bool and ctx :: "nat option" and mem :: heap
    and r :: Reporter
  assume "Wait_op r = None"
  then have busy: "running (reports r) \<noteq> []"
    by (auto simp: Wait_op_def Wait_def split: if_splits)
  define i where "i = fst (sched (reports r)) mod length (running (reports r))"
  have "i < length (running (reports r))"
    using busy by (simp add: i_def)
  then have "length (running (reports (goroutine i (snd (sched (reports r))) mem r)))
               < length (running (reports r))"
    by (cases "running (reports r) ! i")
       (auto simp: goroutine_def finish_def log_def client_ReportEvent_def Let_def
             split: option.splits sum.splits prod.splits)
  then show "((sched, tie, map_option (\<lambda>n. n - 1) ctx, mem, next_goroutine sched mem r),
              (sched, tie, ctx, mem, r))
               \<in> measure (\<lambda>(sched, tie, ctx, mem, r). length (running (reports r)))"
    by (simp add: next_goroutine_def i_def)
qed

declare shutdown_select.simps [simp del]

definition Shutdown ::
  "scheduler \<Rightarrow> bool \<Rightarrow> nat option \<Rightarrow> heap \<Rightarrow> Reporter
     \<Rightarrow> (error option \<times> Reporter) option" where
  "Shutdown sched tie ctx mem r =
     shutdown_select sched tie ctx mem (r\<lparr>shuttingDown := True\<rparr>)"

text \<open>
  When the \<^verbatim>\<open>select\<close> takes \<^verbatim>\<open>ctx.Done()\<close>, the goroutine that sends the result of
  its own \<^verbatim>\<open>Wait\<close> to \<^verbatim>\<open>reportsDone\<close> stays behind. Its \<^verbatim>\<open>Wait\<close> returns only when no
  goroutine of the group runs and then only cancels the context, which \<^verbatim>\<open>Close\<close>
  does as well; it is left out.
\<close>

section \<open>Executions\<close>

text \<open>
  One step of an execution, on the store and the reporter: a caller reports the
  event a pointer points to; a goroutine of the group ends; \<^verbatim>\<open>Shutdown\<close> stores
  the flag; the \<^verbatim>\<open>Go\<close> of \<^verbatim>\<open>Close\<close> gets its token; a \<^verbatim>\<open>Wait\<close> returns; the context
  given to \<^verbatim>\<open>NewReporter\<close> is cancelled; the host program writes to an event.
\<close>

inductive step :: "heap \<times> Reporter \<Rightarrow> heap \<times> Reporter \<Rightarrow> bool" where
  report: "step (mem, r) (ReportEvent env now event mem r)"
| ends: "i < length (running (reports r)) \<Longrightarrow> step (mem, r) (mem, goroutine i h mem r)"
| stop: "step (mem, r) (mem, r\<lparr>shuttingDown := True\<rparr>)"
| abort: "Go Abort (reports r) = Some g \<Longrightarrow> step (mem, r) (mem, r\<lparr>reports := g\<rparr>)"
| waited: "Wait (reports r) = Some (e, g) \<Longrightarrow> step (mem, r) (mem, r\<lparr>reports := g\<rparr>)"
| parent: "step (mem, r) (mem, r\<lparr>reports := (reports r)\<lparr>cancelled := True\<rparr>\<rparr>)"
| writes: "step (mem, r) (mem(p := v), r)"

inductive reachable :: "heap \<times> Reporter \<Rightarrow> bool" where
  init: "reachable (mem, NewReporter ctx sid conf)"
| after: "reachable s \<Longrightarrow> step s s' \<Longrightarrow> reachable s'"

text \<open>A burst of reports with no goroutine ending in between.\<close>

fun ReportEvents :: "environ \<Rightarrow> (instant \<times> ptr) list \<Rightarrow> heap \<Rightarrow> Reporter \<Rightarrow> heap \<times> Reporter" where
  "ReportEvents env [] mem r = (mem, r)"
| "ReportEvents env ((now, event) # evs) mem r =
     ReportEvents env evs (fst (ReportEvent env now event mem r))
       (snd (ReportEvent env now event mem r))"

text \<open>The deliveries among the goroutines of the group.\<close>

fun deliveries :: "task list \<Rightarrow> ptr list" where
  "deliveries [] = []"
| "deliveries (Deliver p # ts) = p # deliveries ts"
| "deliveries (Abort # ts) = deliveries ts"

section \<open>The scenario of the test suite\<close>

definition no_environ :: environ where
  "no_environ = Map.empty"

definition do_not_track_environ :: environ where
  "do_not_track_environ = [''DO_NOT_TRACK'' \<mapsto> ''1'']"

definition test_conf :: Configuration where
  "test_conf =
     \<lparr>conf_BaseURL = ''http://127.0.0.1'', conf_AuthToken = ''test-token'',
      conf_Tags = [''test-tag'']\<rparr>"

definition test_event :: TelemetryEvent where
  "test_event =
     \<lparr>SessionID = [], Timestamp = None, Kind = [], Name = ''TestEvent'', Message = [],
      Values = [''key1'' \<mapsto> ''value1''], StackTrace = [], Tags = []\<rparr>"

text \<open>A store whose every object is the event of the test.\<close>

definition test_mem :: heap where
  "test_mem = (\<lambda>p. test_event)"

definition test_reporter :: Reporter where
  "test_reporter = NewReporter False ''0123456789abcdef'' test_conf"

definition http_ok :: http_env where
  "http_ok = \<lparr>marshal_err = None, request_err = None, do_result = Inr 200\<rparr>"

definition http_offline :: http_env where
  "http_offline =
     \<lparr>marshal_err = None, request_err = None, do_result = Inl (Opaque ''dial tcp: connection refused'')\<rparr>"

definition fifo :: scheduler where
  "fifo g = (0, http_ok)"

text \<open>The same object reported once, and then once more before its delivery runs.\<close>

definition reported_once :: "heap \<times> Reporter" where
  "reported_once = ReportEvent no_environ 7 0 test_mem test_reporter"


text \<open>Sixteen events reported in a burst; and the reporter once \<^verbatim>\<open>Close\<close> has its token.\<close>

definition sixteen_events :: "(instant \<times> ptr) list" where
  "sixteen_events = zip (replicate 16 7) [0..<16]"

definition at_capacity :: "heap \<times> Reporter" where
  "at_capacity = ReportEvents no_environ sixteen_events test_mem test_reporter"

definition closing_reporter :: Reporter where
  "closing_reporter = test_reporter\<lparr>reports := (reports test_reporter)\<lparr>running := [Abort]\<rparr>\<rparr>"

text \<open>The reporter of the test once \<^verbatim>\<open>Close\<close> has returned.\<close>

definition closed_reporter :: Reporter where
  "closed_reporter =
     test_reporter\<lparr>reports := \<lparr>sem = 16, running = [], err = Some Canceled, cancelled = True\<rparr>\<rparr>"

section \<open>What one call of ReportEvent does\<close>

lemma ReportEvent_fst:
  "os_Getenv env doNotTrackEnvName = [] \<Longrightarrow>
     fst (ReportEvent env now event mem r) =
       mem(event := (mem event)\<lparr>Timestamp := Some now,
             SessionID := (if SessionID (mem event) = [] then sessionID r
                           else SessionID (mem event)),
             Tags := Tags (mem event) @ tags r\<rparr>)"
  by (simp add: ReportEvent_def TryGo_def Let_def)

lemma ReportEvent_snd_admitted:
  "os_Getenv env doNotTrackEnvName = [] \<Longrightarrow> \<not> shuttingDown r \<Longrightarrow>
   length (running (reports r)) < sem (reports r) \<Longrightarrow>
     snd (ReportEvent env now event mem r) =
       r\<lparr>reports := (reports r)\<lparr>running := running (reports r) @ [Deliver event]\<rparr>\<rparr>"
  by (simp add: ReportEvent_def TryGo_def Let_def)

lemma ReportEvent_snd_shutting:
  "os_Getenv env doNotTrackEnvName = [] \<Longrightarrow> shuttingDown r \<Longrightarrow>
     snd (ReportEvent env now event mem r) = log Debug ''Shutting down, dropping event'' None r"
  by (simp add: ReportEvent_def Let_def)

lemma ReportEvent_snd_full:
  "os_Getenv env doNotTrackEnvName = [] \<Longrightarrow> \<not> shuttingDown r \<Longrightarrow>
   sem (reports r) \<le> length (running (reports r)) \<Longrightarrow>
     snd (ReportEvent env now event mem r) =
       log Warn ''Too many in-flight telemetry reports, dropping event'' None r"
  by (simp add: ReportEvent_def TryGo_def Let_def log_def)

lemma ReportEvent_snd_optout:
  "os_Getenv env doNotTrackEnvName \<noteq> [] \<Longrightarrow>
     ReportEvent env now event mem r =
       (mem, log Debug ''Telemetry is disabled, dropping event'' None r)"
  by (simp add: ReportEvent_def)

lemma no_environ_inactive: "os_Getenv no_environ doNotTrackEnvName = []"
  by (simp add: os_Getenv_def no_environ_def)

lemma do_not_track_active: "os_Getenv do_not_track_environ doNotTrackEnvName \<noteq> []"
  by (simp add: os_Getenv_def do_not_track_environ_def doNotTrackEnvName_def)

section \<open>What one goroutine of the group does\<close>

lemma goroutine_Deliver:
  "i < length (running (reports r)) \<Longrightarrow> running (reports r) ! i = Deliver event \<Longrightarrow>
     goroutine i h mem r =
       (let res = client_ReportEvent h (cancelled (reports r)) (mem event) (client r)
        in r\<lparr>client := snd res,
             logger := logger r @
               (case fst res of None \<Rightarrow> []
                | Some x \<Rightarrow> [(Debug, ''Failed to report event'', Some x)]),
             reports := (reports r)\<lparr>running :=
               take i (running (reports r)) @ drop (Suc i) (running (reports r))\<rparr>\<rparr>)"
  by (auto simp: goroutine_def finish_def log_def Let_def split: option.splits prod.splits)

lemma goroutine_Abort:
  "i < length (running (reports r)) \<Longrightarrow> running (reports r) ! i = Abort \<Longrightarrow>
     goroutine i h mem r = r\<lparr>reports := finish i (Some Canceled) (reports r)\<rparr>"
  by (simp add: goroutine_def)

lemma calls_client_ReportEvent:
  "calls (snd (client_ReportEvent h ctx event c)) = calls c @ [(ctx, event)]"
  by (simp add: client_ReportEvent_def Let_def split: option.splits sum.splits)

section \<open>The scenario of the test suite, evaluated\<close>

lemma test_reporter_fields:
  "logger test_reporter = []" "calls (client test_reporter) = []"
  "reports test_reporter = \<lparr>sem = 16, running = [], err = None, cancelled = False\<rparr>"
  "\<not> shuttingDown test_reporter" "sessionID test_reporter = ''0123456789abcdef''"
  "tags test_reporter = [''test-tag'']"
  by (simp_all add: test_reporter_def NewReporter_def SetLimit_def WithContext_def
      maxConcurrentReports_def test_conf_def)

lemma test_report:
  "ReportEvent no_environ 7 0 test_mem test_reporter =
     (test_mem(0 := test_event\<lparr>Timestamp := Some 7, SessionID := ''0123456789abcdef'',
                                Tags := [''test-tag'']\<rparr>),
      test_reporter\<lparr>reports := (reports test_reporter)\<lparr>running := [Deliver 0]\<rparr>\<rparr>)"
proof -
  have h: "os_Getenv no_environ doNotTrackEnvName = []"
    by (rule no_environ_inactive)
  have "fst (ReportEvent no_environ 7 0 test_mem test_reporter) =
          test_mem(0 := test_event\<lparr>Timestamp := Some 7, SessionID := ''0123456789abcdef'',
                                Tags := [''test-tag'']\<rparr>)"
    by (simp add: ReportEvent_fst [OF h] test_reporter_fields)
       (simp add: test_mem_def test_event_def)
  moreover have "snd (ReportEvent no_environ 7 0 test_mem test_reporter) =
          test_reporter\<lparr>reports := (reports test_reporter)\<lparr>running := [Deliver 0]\<rparr>\<rparr>"
    by (simp add: ReportEvent_snd_admitted [OF h] test_reporter_fields)
  ultimately show ?thesis by (simp add: prod_eq_iff)
qed

section \<open>The opt-out signal\<close>

text \<open>
  Claim C2. When the variable \<^verbatim>\<open>DO_NOT_TRACK\<close> has a non-empty value at the time of
  the call, \<^verbatim>\<open>ReportEvent\<close> leaves the event, as every object of the store, as it
  is and changes nothing of the reporter but the log, which gains one debug
  line: no task is handed to the group and the delivery client is not invoked,
  whatever the state of the group and of the shutting-down flag.
\<close>

theorem ReportEvent_do_not_track:
  assumes "env doNotTrackEnvName = Some v" and "v \<noteq> []"
  shows "ReportEvent env now event mem r =
           (mem, r\<lparr>logger := logger r @
              [(Debug, ''Telemetry is disabled, dropping event'', None)]\<rparr>)"
  using assms by (simp add: ReportEvent_def os_Getenv_def log_def)

theorem ReportEvent_do_not_track_witness:
  "do_not_track_environ doNotTrackEnvName = Some ''1'' \<and> ''1'' \<noteq> ([] :: string) \<and>
   ReportEvent do_not_track_environ 7 0 test_mem test_reporter =
     (test_mem, test_reporter\<lparr>logger := logger test_reporter @
        [(Debug, ''Telemetry is disabled, dropping event'', None)]\<rparr>)"
  using ReportEvent_do_not_track [of do_not_track_environ "''1''" 7 0 test_mem test_reporter]
  by (simp add: do_not_track_environ_def doNotTrackEnvName_def)

section \<open>Enrichment\<close>

text \<open>
  Claim C9, as stated, fails: an event that already carries a timestamp does not
  keep it. Reported at instant 7, the event of the test suite with timestamp 5
  has timestamp 7 afterwards.
\<close>

theorem timestamp_overwritten_counterexample:
  "os_Getenv no_environ doNotTrackEnvName = [] \<and>
   Timestamp ((test_mem(0 := test_event\<lparr>Timestamp := Some 5\<rparr>)) 0) = Some 5 \<and>
   Timestamp (fst (ReportEvent no_environ 7 0 (test_mem(0 := test_event\<lparr>Timestamp := Some 5\<rparr>))
                     test_reporter) 0)
     = Some 7"
  by (simp add: ReportEvent_fst no_environ_inactive)

text \<open>
  Claim C9, amended. With the opt-out signal inactive, \<^verbatim>\<open>ReportEvent\<close> always sets
  the timestamp to the current instant, whether or not the event had one; it
  keeps a non-empty session identifier and fills an empty one with the
  reporter's; it appends the configured tags to the event's tags; it leaves
  every other field as it was.
\<close>

theorem ReportEvent_enrichment:
  assumes "os_Getenv env doNotTrackEnvName = []"
  shows "Timestamp (fst (ReportEvent env now event mem r) event) = Some now \<and>
         SessionID (fst (ReportEvent env now event mem r) event) =
           (if SessionID (mem event) = [] then sessionID r else SessionID (mem event)) \<and>
         Tags (fst (ReportEvent env now event mem r) event) = Tags (mem event) @ tags r \<and>
         Kind (fst (ReportEvent env now event mem r) event) = Kind (mem event) \<and>
         Name (fst (ReportEvent env now event mem r) event) = Name (mem event) \<and>
         Message (fst (ReportEvent env now event mem r) event) = Message (mem event) \<and>
         Values (fst (ReportEvent env now event mem r) event) = Values (mem event) \<and>
         StackTrace (fst (ReportEvent env now event mem r) event) = StackTrace (mem event)"
  using assms by (simp add: ReportEvent_fst)

theorem ReportEvent_enrichment_witness:
  "os_Getenv no_environ doNotTrackEnvName = [] \<and>
   Timestamp (fst (ReportEvent no_environ 7 0
      (test_mem(0 := test_event\<lparr>Timestamp := Some 5, SessionID := ''mine''\<rparr>)) test_reporter) 0)
     = Some 7 \<and>
   SessionID (fst (ReportEvent no_environ 7 0
      (test_mem(0 := test_event\<lparr>Timestamp := Some 5, SessionID := ''mine''\<rparr>)) test_reporter) 0)
     = ''mine'' \<and>
   Tags (fst (ReportEvent no_environ 7 0
      (test_mem(0 := test_event\<lparr>Timestamp := Some 5, SessionID := ''mine''\<rparr>)) test_reporter) 0)
     = [''test-tag'']"
proof -
  have h: "os_Getenv no_environ doNotTrackEnvName = []"
    by (rule no_environ_inactive)
  show ?thesis
    using h ReportEvent_enrichment [OF h, of 7 0
        "test_mem(0 := test_event\<lparr>Timestamp := Some 5, SessionID := ''mine''\<rparr>)" test_reporter]
    by (simp add: test_event_def test_reporter_fields)
qed

text \<open>
  Claim C10. With the opt-out signal inactive, an event that is dropped because
  the reporter is shutting down or because the group has no free token is
  enriched all the same: the caller finds the timestamp set to the current
  instant, an empty session identifier filled and the configured tags appended,
  while the group and the delivery client are untouched and the log gains the
  line of the drop.
\<close>

theorem dropped_event_is_enriched:
  assumes "os_Getenv env doNotTrackEnvName = []"
    and "shuttingDown r \<or> sem (reports r) \<le> length (running (reports r))"
  shows "fst (ReportEvent env now event mem r) =
           mem(event := (mem event)\<lparr>Timestamp := Some now,
                 SessionID := (if SessionID (mem event) = [] then sessionID r
                               else SessionID (mem event)),
                 Tags := Tags (mem event) @ tags r\<rparr>) \<and>
         reports (snd (ReportEvent env now event mem r)) = reports r \<and>
         client (snd (ReportEvent env now event mem r)) = client r \<and>
         logger (snd (ReportEvent env now event mem r)) = logger r @
           [if shuttingDown r then (Debug, ''Shutting down, dropping event'', None)
            else (Warn, ''Too many in-flight telemetry reports, dropping event'', None)]"
proof (cases "shuttingDown r")
  case True
  with assms(1) show ?thesis
    by (simp add: ReportEvent_fst ReportEvent_snd_shutting log_def)
next
  case False
  with assms have "sem (reports r) \<le> length (running (reports r))" by simp
  with assms(1) False show ?thesis
    by (simp add: ReportEvent_fst ReportEvent_snd_full log_def)
qed

theorem dropped_event_is_enriched_witness:
  "os_Getenv no_environ doNotTrackEnvName = [] \<and>
   shuttingDown (test_reporter\<lparr>shuttingDown := True\<rparr>) \<and>
   fst (ReportEvent no_environ 7 0 test_mem (test_reporter\<lparr>shuttingDown := True\<rparr>)) 0 =
     test_event\<lparr>Timestamp := Some 7, SessionID := ''0123456789abcdef'', Tags := [''test-tag'']\<rparr> \<and>
   reports (snd (ReportEvent no_environ 7 0 test_mem (test_reporter\<lparr>shuttingDown := True\<rparr>))) =
     reports test_reporter"
proof -
  have h: "os_Getenv no_environ doNotTrackEnvName = []"
    by (rule no_environ_inactive)
  have s: "shuttingDown (test_reporter\<lparr>shuttingDown := True\<rparr>) \<or>
           sem (reports (test_reporter\<lparr>shuttingDown := True\<rparr>))
             \<le> length (running (reports (test_reporter\<lparr>shuttingDown := True\<rparr>)))"
    by simp
  show ?thesis
    using h dropped_event_is_enriched [OF h s, of 7 0 test_mem]
    by (simp add: test_event_def test_mem_def test_reporter_fields)
qed

section \<open>Delivery failures\<close>

text \<open>
  Claim C7. A delivery task returns nil to the group whatever the delivery client
  answered. Its goroutine leaves the stored error of the group and the shared
  context as they were, removes only itself from the running goroutines, does not
  touch the shutting-down flag, and logs a failure as one debug line.
  \<^verbatim>\<open>ReportEvent\<close> has no error result and has returned before the delivery runs.
\<close>

theorem delivery_failure_is_swallowed:
  assumes "i < length (running (reports r))" and "running (reports r) ! i = Deliver event"
  shows "fst (task_body h (Deliver event) mem r) = None \<and>
         err (reports (goroutine i h mem r)) = err (reports r) \<and>
         cancelled (reports (goroutine i h mem r)) = cancelled (reports r) \<and>
         running (reports (goroutine i h mem r)) =
           take i (running (reports r)) @ drop (Suc i) (running (reports r)) \<and>
         shuttingDown (goroutine i h mem r) = shuttingDown r \<and>
         logger (goroutine i h mem r) = logger r @
           (case fst (client_ReportEvent h (cancelled (reports r)) (mem event) (client r)) of
              None \<Rightarrow> []
            | Some x \<Rightarrow> [(Debug, ''Failed to report event'', Some x)])"
  using assms
  by (simp add: goroutine_Deliver Let_def split: prod.splits option.splits)

theorem delivery_failure_is_swallowed_witness:
  "0 < length (running (reports (snd (ReportEvent no_environ 7 0 test_mem test_reporter)))) \<and>
   running (reports (snd (ReportEvent no_environ 7 0 test_mem test_reporter))) ! 0 = Deliver 0 \<and>
   err (reports (goroutine 0 http_offline (fst (ReportEvent no_environ 7 0 test_mem test_reporter))
      (snd (ReportEvent no_environ 7 0 test_mem test_reporter)))) = None \<and>
   \<not> cancelled (reports (goroutine 0 http_offline
        (fst (ReportEvent no_environ 7 0 test_mem test_reporter))
        (snd (ReportEvent no_environ 7 0 test_mem test_reporter)))) \<and>
   logger (goroutine 0 http_offline (fst (ReportEvent no_environ 7 0 test_mem test_reporter))
      (snd (ReportEvent no_environ 7 0 test_mem test_reporter))) =
     [(Debug, ''Failed to report event'',
       Some (Wrapf ''failed to send request'' (Opaque ''dial tcp: connection refused'')))]"
proof -
  let ?m = "fst (ReportEvent no_environ 7 0 test_mem test_reporter)"
  let ?r = "snd (ReportEvent no_environ 7 0 test_mem test_reporter)"
  have i: "0 < length (running (reports ?r))" by (simp add: test_report)
  have t: "running (reports ?r) ! 0 = Deliver 0" by (simp add: test_report)
  show ?thesis
    using i t delivery_failure_is_swallowed [OF i t, of http_offline ?m]
    by (simp add: test_report test_reporter_fields client_ReportEvent_def http_offline_def)
qed

section \<open>The goroutines of the group\<close>

lemma goroutine_group:
  assumes "i < length (running (reports r))"
  shows "sem (reports (goroutine i h mem r)) = sem (reports r)"
    and "running (reports (goroutine i h mem r)) =
           take i (running (reports r)) @ drop (Suc i) (running (reports r))"
    and "err (reports (goroutine i h mem r)) =
           (if running (reports r) ! i = Abort \<and> err (reports r) = None then Some Canceled
            else err (reports r))"
    and "cancelled (reports (goroutine i h mem r)) =
           (cancelled (reports r) \<or> (running (reports r) ! i = Abort \<and> err (reports r) = None))"
    and "shuttingDown (goroutine i h mem r) = shuttingDown r"
proof -
  show "sem (reports (goroutine i h mem r)) = sem (reports r)"
    using assms by (cases "running (reports r) ! i")
      (simp_all add: goroutine_Deliver goroutine_Abort finish_def Let_def)
  show "running (reports (goroutine i h mem r)) =
           take i (running (reports r)) @ drop (Suc i) (running (reports r))"
    using assms by (cases "running (reports r) ! i")
      (simp_all add: goroutine_Deliver goroutine_Abort finish_def Let_def)
  show "err (reports (goroutine i h mem r)) =
           (if running (reports r) ! i = Abort \<and> err (reports r) = None then Some Canceled
            else err (reports r))"
    using assms by (cases "running (reports r) ! i")
      (simp_all add: goroutine_Deliver goroutine_Abort finish_def Let_def)
  show "cancelled (reports (goroutine i h mem r)) =
           (cancelled (reports r) \<or> (running (reports r) ! i = Abort \<and> err (reports r) = None))"
    using assms by (cases "running (reports r) ! i")
      (auto simp: goroutine_Deliver goroutine_Abort finish_def Let_def)
  show "shuttingDown (goroutine i h mem r) = shuttingDown r"
    using assms by (cases "running (reports r) ! i")
      (simp_all add: goroutine_Deliver goroutine_Abort finish_def Let_def)
qed

lemma next_goroutine_is_goroutine:
  assumes "running (reports r) \<noteq> []"
  shows "\<exists>i h. i < length (running (reports r)) \<and> next_goroutine sched mem r = goroutine i h mem r"
proof -
  have "fst (sched (reports r)) mod length (running (reports r)) < length (running (reports r))"
    using assms by simp
  then show ?thesis unfolding next_goroutine_def by blast
qed


lemma await_rule:
  assumes "P r"
    and "\<And>s. P s \<Longrightarrow> running (reports s) \<noteq> [] \<Longrightarrow> P (next_goroutine sched mem s)"
    and "\<And>s. P s \<Longrightarrow> op s = None \<Longrightarrow> running (reports s) \<noteq> []"
    and "\<And>s x s'. P s \<Longrightarrow> op s = Some (x, s') \<Longrightarrow> Q x s'"
  shows "\<exists>x s'. await sched mem op r = Some (x, s') \<and> Q x s'"
  using assms
proof (induction sched mem op r rule: await.induct)
  case (1 sched mem op r)
  show ?case
  proof (cases "op r")
    case None
    have busy: "running (reports r) \<noteq> []"
      using "1.prems"(1,3) None by blast
    have P': "P (next_goroutine sched mem r)"
      using "1.prems"(1,2) busy by blast
    have "\<exists>x s'. await sched mem op (next_goroutine sched mem r) = Some (x, s') \<and> Q x s'"
      by (rule "1.IH" [OF None busy P' "1.prems"(2) "1.prems"(3) "1.prems"(4)])
    with None busy show ?thesis
      by (simp add: await.simps [of sched mem op r])
  next
    case (Some res)
    obtain x s' where res: "res = (x, s')" by (cases res)
    have "Q x s'" using "1.prems"(1,4) Some res by blast
    with Some res show ?thesis
      by (simp add: await.simps [of sched mem op r])
  qed
qed


lemma set_remove_nth:
  "x \<in> set xs \<Longrightarrow> i < length xs \<Longrightarrow> xs ! i \<noteq> x \<Longrightarrow>
     x \<in> set (take i xs @ drop (Suc i) xs)"
proof (induction xs arbitrary: i)
  case Nil
  then show ?case by simp
next
  case (Cons a xs)
  show ?case
  proof (cases i)
    case 0
    with Cons.prems show ?thesis by auto
  next
    case (Suc k)
    with Cons.prems Cons.IH [of k] show ?thesis by auto
  qed
qed

lemma next_goroutine_frame:
  assumes "running (reports s) \<noteq> []"
  shows "sem (reports (next_goroutine sched mem s)) = sem (reports s)"
    and "shuttingDown (next_goroutine sched mem s) = shuttingDown s"
    and "cancelled (reports s) \<Longrightarrow> cancelled (reports (next_goroutine sched mem s))"
    and "err (reports (next_goroutine sched mem s)) = err (reports s) \<or>
         (err (reports s) = None \<and> err (reports (next_goroutine sched mem s)) = Some Canceled)"
    and "Abort \<in> set (running (reports s)) \<or> err (reports s) \<noteq> None \<Longrightarrow>
         Abort \<in> set (running (reports (next_goroutine sched mem s))) \<or>
         err (reports (next_goroutine sched mem s)) \<noteq> None"
    and "length (running (reports (next_goroutine sched mem s))) = length (running (reports s)) - 1"
proof -
  obtain i h where i: "i < length (running (reports s))"
    and n: "next_goroutine sched mem s = goroutine i h mem s"
    using next_goroutine_is_goroutine [OF assms] by blast
  show "sem (reports (next_goroutine sched mem s)) = sem (reports s)"
    by (simp add: n goroutine_group [OF i])
  show "shuttingDown (next_goroutine sched mem s) = shuttingDown s"
    by (simp add: n goroutine_group [OF i])
  show "cancelled (reports s) \<Longrightarrow> cancelled (reports (next_goroutine sched mem s))"
    by (simp add: n goroutine_group [OF i])
  show "err (reports (next_goroutine sched mem s)) = err (reports s) \<or>
         (err (reports s) = None \<and> err (reports (next_goroutine sched mem s)) = Some Canceled)"
    by (simp add: n goroutine_group [OF i])
  show "length (running (reports (next_goroutine sched mem s))) = length (running (reports s)) - 1"
    using i by (simp add: n goroutine_group [OF i])
  show "Abort \<in> set (running (reports (next_goroutine sched mem s))) \<or>
         err (reports (next_goroutine sched mem s)) \<noteq> None"
    if a: "Abort \<in> set (running (reports s)) \<or> err (reports s) \<noteq> None"
  proof (cases "running (reports s) ! i = Abort")
    case True
    then show ?thesis by (simp add: n goroutine_group [OF i])
  next
    case False
    show ?thesis
    proof (cases "err (reports s) = None")
      case True
      with a have "Abort \<in> set (running (reports s))" by simp
      then have "Abort \<in> set (take i (running (reports s)) @ drop (Suc i) (running (reports s)))"
        using i False by (rule set_remove_nth)
      then show ?thesis by (simp add: n goroutine_group [OF i])
    next
      case False
      then show ?thesis by (simp add: n goroutine_group [OF i])
    qed
  qed
qed

lemma not_canceled_Canceled: "not_canceled (Some Canceled) = None"
  by (simp add: not_canceled_def)

lemma Go_op_Some:
  "Go_op f s = Some (u, s') \<longleftrightarrow>
     length (running (reports s)) < sem (reports s) \<and>
     s' = s\<lparr>reports := (reports s)\<lparr>running := running (reports s) @ [f]\<rparr>\<rparr>"
  by (auto simp: Go_op_def Go_def)

lemma Go_op_None: "Go_op f s = None \<longleftrightarrow> sem (reports s) \<le> length (running (reports s))"
  by (auto simp: Go_op_def Go_def)

lemma Wait_op_Some:
  "Wait_op s = Some (e, s') \<longleftrightarrow>
     running (reports s) = [] \<and> e = err (reports s) \<and>
     s' = s\<lparr>reports := (reports s)\<lparr>cancelled := True\<rparr>\<rparr>"
  by (auto simp: Wait_op_def Wait_def)

lemma Wait_op_None: "Wait_op s = None \<longleftrightarrow> running (reports s) \<noteq> []"
  by (auto simp: Wait_op_def Wait_def)

lemma await_Go_Abort:
  assumes "0 < sem (reports r)"
  shows "\<exists>s'. await sched mem (Go_op Abort) r = Some ((), s') \<and>
           sem (reports s') = sem (reports r) \<and> shuttingDown s' = shuttingDown r \<and>
           (err (reports s') = err (reports r) \<or>
              (err (reports r) = None \<and> err (reports s') = Some Canceled)) \<and>
           Abort \<in> set (running (reports s'))"
proof -
  let ?P = "\<lambda>s. sem (reports s) = sem (reports r) \<and> shuttingDown s = shuttingDown r \<and>
           (err (reports s) = err (reports r) \<or>
              (err (reports r) = None \<and> err (reports s) = Some Canceled))"
  let ?Q = "\<lambda>(u::unit) s'. ?P s' \<and> Abort \<in> set (running (reports s'))"
  have "\<exists>x s'. await sched mem (Go_op Abort) r = Some (x, s') \<and> ?Q x s'"
  proof (rule await_rule [where P = ?P and Q = ?Q])
    show "?P r" by simp
  next
    fix s :: Reporter assume "?P s" and busy: "running (reports s) \<noteq> []"
    then show "?P (next_goroutine sched mem s)"
      using next_goroutine_frame(1,2,4) [OF busy, of sched mem] by auto
  next
    fix s :: Reporter assume "?P s" and "Go_op Abort s = None"
    then show "running (reports s) \<noteq> []"
      using assms by (auto simp: Go_op_None)
  next
    fix s :: Reporter and x :: unit and s' :: Reporter assume "?P s" and "Go_op Abort s = Some (x, s')"
    then show "?Q x s'" by (auto simp: Go_op_Some)
  qed
  then show ?thesis by auto
qed

lemma await_Wait:
  assumes "Abort \<in> set (running (reports r)) \<or> err (reports r) \<noteq> None"
  shows "\<exists>s'. await sched mem Wait_op r = Some (err (reports s'), s') \<and>
           sem (reports s') = sem (reports r) \<and> shuttingDown s' = shuttingDown r \<and>
           (err (reports s') = err (reports r) \<or>
              (err (reports r) = None \<and> err (reports s') = Some Canceled)) \<and>
           err (reports s') \<noteq> None \<and> running (reports s') = [] \<and> cancelled (reports s')"
proof -
  let ?P = "\<lambda>s. sem (reports s) = sem (reports r) \<and> shuttingDown s = shuttingDown r \<and>
           (err (reports s) = err (reports r) \<or>
              (err (reports r) = None \<and> err (reports s) = Some Canceled)) \<and>
           (Abort \<in> set (running (reports s)) \<or> err (reports s) \<noteq> None)"
  let ?Q = "\<lambda>e s'. e = err (reports s') \<and> sem (reports s') = sem (reports r) \<and>
           shuttingDown s' = shuttingDown r \<and>
           (err (reports s') = err (reports r) \<or>
              (err (reports r) = None \<and> err (reports s') = Some Canceled)) \<and>
           err (reports s') \<noteq> None \<and> running (reports s') = [] \<and> cancelled (reports s')"
  have "\<exists>x s'. await sched mem Wait_op r = Some (x, s') \<and> ?Q x s'"
  proof (rule await_rule [where P = ?P and Q = ?Q])
    show "?P r" using assms by simp
  next
    fix s :: Reporter assume P: "?P s" and busy: "running (reports s) \<noteq> []"
    have "Abort \<in> set (running (reports (next_goroutine sched mem s))) \<or>
          err (reports (next_goroutine sched mem s)) \<noteq> None"
      using next_goroutine_frame(5) [OF busy] P by blast
    then show "?P (next_goroutine sched mem s)"
      using P next_goroutine_frame(1,2,4) [OF busy, of sched mem] by auto
  next
    fix s :: Reporter assume "?P s" and "Wait_op s = None"
    then show "running (reports s) \<noteq> []" by (simp add: Wait_op_None)
  next
    fix s :: Reporter and x :: "error option" and s' :: Reporter assume "?P s" and "Wait_op s = Some (x, s')"
    then show "?Q x s'" by (auto simp: Wait_op_Some)
  qed
  then show ?thesis by auto
qed

lemma Close_result:
  assumes "0 < sem (reports r)"
  shows "\<exists>r'. Close sched mem r = Some (not_canceled (err (reports r)), r') \<and>
           running (reports r') = [] \<and> cancelled (reports r') \<and>
           err (reports r') = Some (case err (reports r) of None \<Rightarrow> Canceled | Some x \<Rightarrow> x) \<and>
           shuttingDown r' = shuttingDown r \<and> sem (reports r') = sem (reports r)"
proof -
  obtain s1 where s1: "await sched mem (Go_op Abort) r = Some ((), s1)"
    and sem1: "sem (reports s1) = sem (reports r)" and fl1: "shuttingDown s1 = shuttingDown r"
    and err1: "err (reports s1) = err (reports r) \<or>
              (err (reports r) = None \<and> err (reports s1) = Some Canceled)"
    and ab1: "Abort \<in> set (running (reports s1))"
    using await_Go_Abort [OF assms, of sched mem] by blast
  from ab1 have "Abort \<in> set (running (reports s1)) \<or> err (reports s1) \<noteq> None" by simp
  from await_Wait [OF this, of sched mem]
  obtain s2 where s2: "await sched mem Wait_op s1 = Some (err (reports s2), s2)"
    and sem2: "sem (reports s2) = sem (reports s1)" and fl2: "shuttingDown s2 = shuttingDown s1"
    and err2: "err (reports s2) = err (reports s1) \<or>
              (err (reports s1) = None \<and> err (reports s2) = Some Canceled)"
    and ne2: "err (reports s2) \<noteq> None" and run2: "running (reports s2) = []"
    and can2: "cancelled (reports s2)"
    by blast
  have e: "err (reports s2) = Some (case err (reports r) of None \<Rightarrow> Canceled | Some x \<Rightarrow> x)"
    using err1 err2 ne2 by (auto split: option.splits)
  then have "not_canceled (err (reports s2)) = not_canceled (err (reports r))"
    by (cases "err (reports r)") (simp_all add: not_canceled_def)
  then have "Close sched mem r = Some (not_canceled (err (reports r)), s2)"
    by (simp add: Close_def s1 s2)
  with e run2 can2 sem1 sem2 fl1 fl2 show ?thesis by simp
qed


section \<open>Close\<close>

lemma await_ready: "op r = Some res \<Longrightarrow> await sched mem op r = Some res"
  by (simp add: await.simps [of sched mem op r])

lemma await_blocked:
  "op r = None \<Longrightarrow> running (reports r) \<noteq> [] \<Longrightarrow>
     await sched mem op r = await sched mem op (next_goroutine sched mem r)"
  by (simp add: await.simps [of sched mem op r])

lemma not_canceled_cases:
  "not_canceled None = None"
  "not_canceled (Some Canceled) = None"
  "\<not> errors_Is x Canceled \<Longrightarrow> not_canceled (Some x) = Some x"
  "errors_Is x Canceled \<Longrightarrow> not_canceled (Some x) = None"
  by (simp_all add: not_canceled_def)

lemma Close_idle:
  assumes "running (reports r) = []" and "0 < sem (reports r)"
  shows "Close sched mem r =
           Some (not_canceled (err (reports r)),
                 r\<lparr>reports := (reports r)\<lparr>err := Some (case err (reports r) of
                        None \<Rightarrow> Canceled | Some x \<Rightarrow> x), cancelled := True\<rparr>\<rparr>)"
proof -
  let ?r1 = "r\<lparr>reports := (reports r)\<lparr>running := [Abort]\<rparr>\<rparr>"
  have go: "await sched mem (Go_op Abort) r = Some ((), ?r1)"
    using assms by (intro await_ready) (simp add: Go_op_def Go_def)
  have nx: "next_goroutine sched mem ?r1 = goroutine 0 (snd (sched (reports ?r1))) mem ?r1"
    by (simp add: next_goroutine_def)
  have g0: "goroutine 0 (snd (sched (reports ?r1))) mem ?r1 =
          r\<lparr>reports := (reports r)\<lparr>err := Some (case err (reports r) of
                        None \<Rightarrow> Canceled | Some x \<Rightarrow> x),
                   cancelled := (cancelled (reports r) \<or> err (reports r) = None)\<rparr>\<rparr>"
    using assms(1) by (cases "err (reports r)") (simp_all add: goroutine_Abort finish_def)
  have "await sched mem Wait_op ?r1 = await sched mem Wait_op (next_goroutine sched mem ?r1)"
    by (rule await_blocked) (simp_all add: Wait_op_None)
  also have "\<dots> = Some (Some (case err (reports r) of None \<Rightarrow> Canceled | Some x \<Rightarrow> x),
        r\<lparr>reports := (reports r)\<lparr>err := Some (case err (reports r) of
                        None \<Rightarrow> Canceled | Some x \<Rightarrow> x), cancelled := True\<rparr>\<rparr>)"
    unfolding nx g0 using assms(1) by (intro await_ready) (simp add: Wait_op_def Wait_def)
  finally have wt: "await sched mem Wait_op ?r1 =
      Some (Some (case err (reports r) of None \<Rightarrow> Canceled | Some x \<Rightarrow> x),
        r\<lparr>reports := (reports r)\<lparr>err := Some (case err (reports r) of
                        None \<Rightarrow> Canceled | Some x \<Rightarrow> x), cancelled := True\<rparr>\<rparr>)" .
  have "not_canceled (Some (case err (reports r) of None \<Rightarrow> Canceled | Some x \<Rightarrow> x)) =
        not_canceled (err (reports r))"
    by (cases "err (reports r)") (simp_all add: not_canceled_def)
  then show ?thesis by (simp add: Close_def go wt)
qed

lemma goroutine_flag:
  "goroutine i h mem (r\<lparr>shuttingDown := b\<rparr>) = (goroutine i h mem r)\<lparr>shuttingDown := b\<rparr>"
proof (cases "i < length (running (reports r))")
  case True
  then show ?thesis
    by (cases "running (reports r) ! i")
       (simp_all add: goroutine_Deliver goroutine_Abort Let_def)
next
  case False
  then show ?thesis by (simp add: goroutine_def)
qed

lemma next_goroutine_flag:
  "next_goroutine sched mem (r\<lparr>shuttingDown := b\<rparr>) = (next_goroutine sched mem r)\<lparr>shuttingDown := b\<rparr>"
  by (simp add: next_goroutine_def goroutine_flag)

lemma await_flag:
  assumes "\<And>s. op (s\<lparr>shuttingDown := b\<rparr>) =
             map_option (\<lambda>(x, s'). (x, s'\<lparr>shuttingDown := b\<rparr>)) (op s)"
  shows "await sched mem op (r\<lparr>shuttingDown := b\<rparr>) =
           map_option (\<lambda>(x, s'). (x, s'\<lparr>shuttingDown := b\<rparr>)) (await sched mem op r)"
  using assms
proof (induction sched mem op r rule: await.induct)
  case (1 sched mem op r)
  show ?case
  proof (cases "op r")
    case None
    then have n': "op (r\<lparr>shuttingDown := b\<rparr>) = None"
      by (simp add: "1.prems")
    show ?thesis
    proof (cases "running (reports r) = []")
      case True
      with None n' show ?thesis
        by (simp add: await.simps [of sched mem op r] await.simps [of sched mem op "r\<lparr>shuttingDown := b\<rparr>"])
    next
      case False
      have "await sched mem op (r\<lparr>shuttingDown := b\<rparr>) =
              await sched mem op ((next_goroutine sched mem r)\<lparr>shuttingDown := b\<rparr>)"
        using n' False
        by (simp add: await.simps [of sched mem op "r\<lparr>shuttingDown := b\<rparr>"] next_goroutine_flag)
      also have "\<dots> = map_option (\<lambda>(x, s'). (x, s'\<lparr>shuttingDown := b\<rparr>))
                          (await sched mem op (next_goroutine sched mem r))"
        by (rule "1.IH" [OF None False "1.prems"])
      also have "await sched mem op (next_goroutine sched mem r) = await sched mem op r"
        using None False by (simp add: await.simps [of sched mem op r])
      finally show ?thesis .
    qed
  next
    case (Some res)
    then have "op (r\<lparr>shuttingDown := b\<rparr>) =
                 Some ((\<lambda>(x, s'). (x, s'\<lparr>shuttingDown := b\<rparr>)) res)"
      by (simp add: "1.prems")
    with Some show ?thesis
      by (simp add: await.simps [of sched mem op r] await.simps [of sched mem op "r\<lparr>shuttingDown := b\<rparr>"])
  qed
qed

lemma Close_flag:
  "Close sched mem (r\<lparr>shuttingDown := b\<rparr>) =
     map_option (\<lambda>(e, s). (e, s\<lparr>shuttingDown := b\<rparr>)) (Close sched mem r)"
proof -
  have go: "await sched mem (Go_op Abort) (s\<lparr>shuttingDown := b\<rparr>) =
          map_option (\<lambda>(x, s'). (x, s'\<lparr>shuttingDown := b\<rparr>)) (await sched mem (Go_op Abort) s)" for s
    by (rule await_flag) (simp add: Go_op_def Go_def)
  have wt: "await sched mem Wait_op (s\<lparr>shuttingDown := b\<rparr>) =
          map_option (\<lambda>(x, s'). (x, s'\<lparr>shuttingDown := b\<rparr>)) (await sched mem Wait_op s)" for s
    by (rule await_flag) (simp add: Wait_op_def Wait_def)
  show ?thesis
    by (simp add: Close_def go wt split: option.splits prod.splits)
qed

section \<open>Admission and delivery\<close>

lemma reported_once_eq:
  "reported_once =
     (test_mem(0 := test_event\<lparr>Timestamp := Some 7, SessionID := ''0123456789abcdef'',
                                Tags := [''test-tag'']\<rparr>),
      test_reporter\<lparr>reports := (reports test_reporter)\<lparr>running := [Deliver 0]\<rparr>\<rparr>)"
  by (simp add: reported_once_def test_report)





section \<open>Executions keep the group within its limit\<close>

lemma ReportEvent_frame:
  "sem (reports (snd (ReportEvent env now event mem r))) = sem (reports r)"
  "err (reports (snd (ReportEvent env now event mem r))) = err (reports r)"
  "cancelled (reports (snd (ReportEvent env now event mem r))) = cancelled (reports r)"
  "shuttingDown (snd (ReportEvent env now event mem r)) = shuttingDown r"
  "calls (client (snd (ReportEvent env now event mem r))) = calls (client r)"
  by (simp_all add: ReportEvent_def TryGo_def log_def Let_def)

lemma ReportEvent_running:
  "running (reports (snd (ReportEvent env now event mem r))) =
     (if os_Getenv env doNotTrackEnvName = [] \<and> \<not> shuttingDown r \<and>
         length (running (reports r)) < sem (reports r)
      then running (reports r) @ [Deliver event]
      else running (reports r))"
  by (simp add: ReportEvent_def TryGo_def log_def Let_def)

lemma step_invariant:
  assumes "step (mem, r) (mem', r')"
    and "sem (reports r) = maxConcurrentReports"
    and "length (running (reports r)) \<le> sem (reports r)"
    and "err (reports r) = None \<or> err (reports r) = Some Canceled"
    and "err (reports r) \<noteq> None \<longrightarrow> cancelled (reports r)"
  shows "sem (reports r') = maxConcurrentReports \<and>
         length (running (reports r')) \<le> sem (reports r') \<and>
         (err (reports r') = None \<or> err (reports r') = Some Canceled) \<and>
         (err (reports r') \<noteq> None \<longrightarrow> cancelled (reports r'))"
  using assms(1)
proof (cases rule: step.cases)
  case (report env now event)
  then have "r' = snd (ReportEvent env now event mem r)"
    by (metis snd_conv)
  with assms(2-5) show ?thesis
    by (simp add: ReportEvent_frame ReportEvent_running)
next
  case (ends i h)
  with assms(2-5) show ?thesis
    by (auto simp: goroutine_group)
next
  case stop
  with assms(2-5) show ?thesis by simp
next
  case (abort g)
  with assms(2-5) show ?thesis
    by (auto simp: Go_def split: if_splits)
next
  case (waited e g)
  with assms(2-5) show ?thesis
    by (auto simp: Wait_def split: if_splits)
next
  case parent
  with assms(2-5) show ?thesis by simp
next
  case (writes p v)
  with assms(2-5) show ?thesis by simp
qed

lemma reachable_invariant:
  "reachable s \<Longrightarrow>
     sem (reports (snd s)) = maxConcurrentReports \<and>
     length (running (reports (snd s))) \<le> sem (reports (snd s)) \<and>
     (err (reports (snd s)) = None \<or> err (reports (snd s)) = Some Canceled) \<and>
     (err (reports (snd s)) \<noteq> None \<longrightarrow> cancelled (reports (snd s)))"
proof (induction rule: reachable.induct)
  case (init mem ctx sid conf)
  show ?case by (simp add: NewReporter_def SetLimit_def WithContext_def)
next
  case (after s s')
  then show ?case using step_invariant [of "fst s" "snd s" "fst s'" "snd s'"] by simp
qed

lemma reachable_report:
  "reachable (mem, r) \<Longrightarrow>
     reachable (fst (ReportEvent env now event mem r), snd (ReportEvent env now event mem r))"
  using reachable.after [OF _ step.report, of mem r env now event] by simp

lemma ReportEvents_frame:
  "sem (reports (snd (ReportEvents env evs mem r))) = sem (reports r)"
  "shuttingDown (snd (ReportEvents env evs mem r)) = shuttingDown r"
  by (induction env evs mem r rule: ReportEvents.induct) (simp_all add: ReportEvent_frame)

lemma reachable_ReportEvents:
  "reachable (mem, r) \<Longrightarrow>
     reachable (fst (ReportEvents env evs mem r), snd (ReportEvents env evs mem r))"
proof (induction env evs mem r rule: ReportEvents.induct)
  case (1 env mem r)
  then show ?case by simp
next
  case (2 env now event evs mem r)
  from "2.IH" [OF reachable_report [OF "2.prems"]] show ?case by simp
qed

lemma deliveries_append: "deliveries (xs @ ys) = deliveries xs @ deliveries ys"
  by (induction xs rule: deliveries.induct) simp_all

lemma deliveries_map_Deliver: "deliveries (map Deliver ps) = ps"
  by (induction ps) simp_all

lemma length_deliveries: "length (deliveries ts) \<le> length ts"
  by (induction ts rule: deliveries.induct) simp_all

lemma length_deliveries_no_Abort: "Abort \<notin> set ts \<Longrightarrow> length (deliveries ts) = length ts"
  by (induction ts rule: deliveries.induct) simp_all

lemma ReportEvents_burst:
  assumes "os_Getenv env doNotTrackEnvName = []" and "\<not> shuttingDown r"
    and "length (running (reports r)) \<le> sem (reports r)"
  shows "running (reports (snd (ReportEvents env evs mem r))) =
           running (reports r) @
             map Deliver (take (sem (reports r) - length (running (reports r))) (map snd evs)) \<and>
         logger (snd (ReportEvents env evs mem r)) = logger r @
           replicate (length (running (reports r)) + length evs - sem (reports r))
             (Warn, ''Too many in-flight telemetry reports, dropping event'', None)"
  using assms
proof (induction env evs mem r rule: ReportEvents.induct)
  case (1 env mem r)
  then show ?case by simp
next
  case (2 env now event evs mem r)
  let ?m = "fst (ReportEvent env now event mem r)"
  let ?r = "snd (ReportEvent env now event mem r)"
  have fl: "\<not> shuttingDown ?r"
    using "2.prems"(2) by (simp add: ReportEvent_frame)
  show ?case
  proof (cases "length (running (reports r)) < sem (reports r)")
    case True
    have r': "?r = r\<lparr>reports := (reports r)\<lparr>running := running (reports r) @ [Deliver event]\<rparr>\<rparr>"
      using "2.prems"(1,2) True by (rule ReportEvent_snd_admitted)
    have le: "length (running (reports ?r)) \<le> sem (reports ?r)"
      using True by (simp add: r')
    have suc: "sem (reports r) - length (running (reports r)) =
               Suc (sem (reports r) - Suc (length (running (reports r))))"
      using True by simp
    have IH: "running (reports (snd (ReportEvents env evs ?m ?r))) =
           running (reports ?r) @
             map Deliver (take (sem (reports ?r) - length (running (reports ?r))) (map snd evs)) \<and>
         logger (snd (ReportEvents env evs ?m ?r)) = logger ?r @
           replicate (length (running (reports ?r)) + length evs - sem (reports ?r))
             (Warn, ''Too many in-flight telemetry reports, dropping event'', None)"
      by (rule "2.IH" [OF "2.prems"(1) fl le])
    have run: "running (reports (snd (ReportEvents env ((now, event) # evs) mem r))) =
           running (reports r) @
             map Deliver (take (sem (reports r) - length (running (reports r)))
               (map snd ((now, event) # evs)))"
      using IH [THEN conjunct1] by (simp add: suc) (simp add: r')
    have lg: "logger (snd (ReportEvents env ((now, event) # evs) mem r)) = logger r @
           replicate (length (running (reports r)) + length ((now, event) # evs) - sem (reports r))
             (Warn, ''Too many in-flight telemetry reports, dropping event'', None)"
      using IH [THEN conjunct2] by (simp add: r')
    from run lg show ?thesis by (rule conjI)
  next
    case False
    then have full: "sem (reports r) \<le> length (running (reports r))" by simp
    have r': "?r = log Warn ''Too many in-flight telemetry reports, dropping event'' None r"
      using "2.prems"(1,2) full by (rule ReportEvent_snd_full)
    have eq: "length (running (reports r)) = sem (reports r)"
      using full "2.prems"(3) by simp
    have le: "length (running (reports ?r)) \<le> sem (reports ?r)"
      using eq by (simp add: r' log_def)
    have IH: "running (reports (snd (ReportEvents env evs ?m ?r))) =
           running (reports ?r) @
             map Deliver (take (sem (reports ?r) - length (running (reports ?r))) (map snd evs)) \<and>
         logger (snd (ReportEvents env evs ?m ?r)) = logger ?r @
           replicate (length (running (reports ?r)) + length evs - sem (reports ?r))
             (Warn, ''Too many in-flight telemetry reports, dropping event'', None)"
      by (rule "2.IH" [OF "2.prems"(1) fl le])
    have run: "running (reports (snd (ReportEvents env ((now, event) # evs) mem r))) =
           running (reports r) @
             map Deliver (take (sem (reports r) - length (running (reports r)))
               (map snd ((now, event) # evs)))"
      using IH [THEN conjunct1] eq by (simp add: r' log_def)
    have lg: "logger (snd (ReportEvents env ((now, event) # evs) mem r)) = logger r @
           replicate (length (running (reports r)) + length ((now, event) # evs) - sem (reports r))
             (Warn, ''Too many in-flight telemetry reports, dropping event'', None)"
      using IH [THEN conjunct2] eq by (simp add: r' log_def replicate_append_same)
    from run lg show ?thesis by (rule conjI)
  qed
qed

lemma reachable_test: "reachable (test_mem, test_reporter)"
  unfolding test_reporter_def by (rule reachable.init)

lemma length_sixteen_events: "length sixteen_events = 16"
  by (simp add: sixteen_events_def)

lemma at_capacity_facts:
  "reachable (fst at_capacity, snd at_capacity)"
  "\<not> shuttingDown (snd at_capacity)"
  "length (running (reports (snd at_capacity))) = 16"
  "logger (snd at_capacity) = []"
  "sem (reports (snd at_capacity)) = 16"
proof -
  have h: "os_Getenv no_environ doNotTrackEnvName = []"
    by (rule no_environ_inactive)
  have f: "\<not> shuttingDown test_reporter" by (simp add: test_reporter_fields)
  have le: "length (running (reports test_reporter)) \<le> sem (reports test_reporter)"
    by (simp add: test_reporter_fields)
  note B = ReportEvents_burst [OF h f le, of sixteen_events test_mem]
  show "reachable (fst at_capacity, snd at_capacity)"
    unfolding at_capacity_def by (rule reachable_ReportEvents [OF reachable_test])
  show "\<not> shuttingDown (snd at_capacity)"
    by (simp add: at_capacity_def ReportEvents_frame test_reporter_fields)
  show "length (running (reports (snd at_capacity))) = 16"
    using B [THEN conjunct1]
    by (simp add: at_capacity_def test_reporter_fields length_sixteen_events)
  show "logger (snd at_capacity) = []"
    using B [THEN conjunct2]
    by (simp add: at_capacity_def test_reporter_fields length_sixteen_events)
  show "sem (reports (snd at_capacity)) = 16"
    by (simp add: at_capacity_def ReportEvents_frame test_reporter_fields)
qed

lemma reachable_closing: "reachable (test_mem, closing_reporter)"
proof -
  have "Go Abort (reports test_reporter) =
          Some ((reports test_reporter)\<lparr>running := [Abort]\<rparr>)"
    by (simp add: Go_def test_reporter_fields)
  from reachable.after [OF reachable_test step.abort [OF this]]
  show ?thesis by (simp add: closing_reporter_def)
qed

text \<open>
  Claim C3, as stated, fails in two ways. First, a \<^verbatim>\<open>ReportEvent\<close> that arrives
  when the group is at capacity does not always log a warning: once sixteen
  events are in flight and \<^verbatim>\<open>Shutdown\<close> has stored its flag, the drop is logged at
  debug level. Second, the sixteen tokens are not always held by deliveries:
  once the \<^verbatim>\<open>Go\<close> of \<^verbatim>\<open>Close\<close> has its token, a burst of sixteen reports leaves
  sixteen goroutines in flight, of which fifteen are deliveries.
\<close>

theorem at_capacity_counterexample:
  "reachable (fst at_capacity, (snd at_capacity)\<lparr>shuttingDown := True\<rparr>) \<and>
   os_Getenv no_environ doNotTrackEnvName = [] \<and>
   length (running (reports ((snd at_capacity)\<lparr>shuttingDown := True\<rparr>))) = maxConcurrentReports \<and>
   logger (snd (ReportEvent no_environ 9 0 (fst at_capacity)
                  ((snd at_capacity)\<lparr>shuttingDown := True\<rparr>))) =
     [(Debug, ''Shutting down, dropping event'', None)] \<and>
   reachable (test_mem, closing_reporter) \<and> \<not> shuttingDown closing_reporter \<and>
   length (running (reports (snd (ReportEvents no_environ sixteen_events test_mem closing_reporter))))
     = maxConcurrentReports \<and>
   length (deliveries (running (reports
       (snd (ReportEvents no_environ sixteen_events test_mem closing_reporter))))) = 15"
proof -
  have h: "os_Getenv no_environ doNotTrackEnvName = []"
    by (rule no_environ_inactive)
  have r1: "reachable (fst at_capacity, (snd at_capacity)\<lparr>shuttingDown := True\<rparr>)"
    by (rule reachable.after [OF at_capacity_facts(1) step.stop])
  have l1: "length (running (reports ((snd at_capacity)\<lparr>shuttingDown := True\<rparr>))) =
            maxConcurrentReports"
    by (simp add: at_capacity_facts maxConcurrentReports_def)
  have d1: "logger (snd (ReportEvent no_environ 9 0 (fst at_capacity)
                  ((snd at_capacity)\<lparr>shuttingDown := True\<rparr>))) =
     [(Debug, ''Shutting down, dropping event'', None)]"
    by (simp add: ReportEvent_snd_shutting [OF h] log_def at_capacity_facts)
  have f2: "\<not> shuttingDown closing_reporter"
    by (simp add: closing_reporter_def test_reporter_fields)
  have le2: "length (running (reports closing_reporter)) \<le> sem (reports closing_reporter)"
    by (simp add: closing_reporter_def test_reporter_fields)
  have run2: "running (reports (snd (ReportEvents no_environ sixteen_events test_mem closing_reporter)))
      = [Abort] @ map Deliver (take 15 (map snd sixteen_events))"
    using ReportEvents_burst [OF h f2 le2, of sixteen_events test_mem, THEN conjunct1]
    by (simp add: closing_reporter_def test_reporter_fields)
  have l2: "length (running (reports
        (snd (ReportEvents no_environ sixteen_events test_mem closing_reporter)))) =
      maxConcurrentReports"
    by (simp add: run2 length_sixteen_events maxConcurrentReports_def)
  have d2: "length (deliveries (running (reports
       (snd (ReportEvents no_environ sixteen_events test_mem closing_reporter))))) = 15"
    by (simp add: run2 deliveries_append deliveries_map_Deliver length_sixteen_events)
  show ?thesis
    by (intro conjI) (rule r1 h l1 d1 reachable_closing f2 l2 d2)+
qed

text \<open>
  Claim C3, amended. \<^verbatim>\<open>maxConcurrentReports\<close> is 16, and in every state of every
  execution at most 16 goroutines of the group are in flight (deliveries and,
  while \<^verbatim>\<open>Close\<close> runs, its cancelling task, which holds a token too), hence at most
  16 deliveries. A \<^verbatim>\<open>ReportEvent\<close> that reaches admission (opt-out signal inactive,
  reporter not shutting down) and finds the group at capacity leaves the group
  and the client as they are (the event is neither queued nor delivered) and
  logs one warning; \<^verbatim>\<open>ReportEvent\<close> is a total function with no blocking call. A
  burst of n such reports with no goroutine ending in between, from k
  goroutines in flight, leaves min 16 (k + n) in flight: the first 16 - k
  events are admitted as deliveries, in order, and each other event is dropped
  with one warning; with no cancelling task in the group and 16 \<le> k + n these
  are exactly 16 deliveries in flight. With the opt-out signal active or the
  reporter shutting down, the event is dropped before admission, with one debug
  line, also at capacity.
\<close>

theorem group_bounded_overflow_dropped:
  assumes "reachable (mem, r)"
  shows "maxConcurrentReports = 16 \<and>
         length (running (reports r)) \<le> maxConcurrentReports \<and>
         length (deliveries (running (reports r))) \<le> maxConcurrentReports \<and>
         (os_Getenv env doNotTrackEnvName = [] \<and> \<not> shuttingDown r \<longrightarrow>
            (length (running (reports r)) = maxConcurrentReports \<longrightarrow>
               reports (snd (ReportEvent env now event mem r)) = reports r \<and>
               client (snd (ReportEvent env now event mem r)) = client r \<and>
               logger (snd (ReportEvent env now event mem r)) = logger r @
                 [(Warn, ''Too many in-flight telemetry reports, dropping event'', None)]) \<and>
            length (running (reports (snd (ReportEvents env evs mem r)))) =
              min maxConcurrentReports (length (running (reports r)) + length evs) \<and>
            deliveries (running (reports (snd (ReportEvents env evs mem r)))) =
              deliveries (running (reports r)) @
                take (maxConcurrentReports - length (running (reports r))) (map snd evs) \<and>
            logger (snd (ReportEvents env evs mem r)) = logger r @
              replicate (length (running (reports r)) + length evs - maxConcurrentReports)
                (Warn, ''Too many in-flight telemetry reports, dropping event'', None) \<and>
            (Abort \<notin> set (running (reports r)) \<and>
             maxConcurrentReports \<le> length (running (reports r)) + length evs \<longrightarrow>
               length (deliveries (running (reports (snd (ReportEvents env evs mem r))))) =
                 maxConcurrentReports)) \<and>
         (os_Getenv env doNotTrackEnvName \<noteq> [] \<or> shuttingDown r \<longrightarrow>
            reports (snd (ReportEvent env now event mem r)) = reports r \<and>
            client (snd (ReportEvent env now event mem r)) = client r \<and>
            logger (snd (ReportEvent env now event mem r)) = logger r @
              [(Debug,
                if os_Getenv env doNotTrackEnvName \<noteq> [] then ''Telemetry is disabled, dropping event''
                else ''Shutting down, dropping event'',
                None)])"
proof -
  have inv: "sem (reports r) = maxConcurrentReports"
    "length (running (reports r)) \<le> sem (reports r)"
    using reachable_invariant [OF assms] by simp_all
  have c1: "maxConcurrentReports = 16" by (simp add: maxConcurrentReports_def)
  have c2: "length (running (reports r)) \<le> maxConcurrentReports"
    using inv by simp
  have c3: "length (deliveries (running (reports r))) \<le> maxConcurrentReports"
    using c2 length_deliveries [of "running (reports r)"] by simp
  have c4: "os_Getenv env doNotTrackEnvName = [] \<and> \<not> shuttingDown r \<longrightarrow>
            (length (running (reports r)) = maxConcurrentReports \<longrightarrow>
               reports (snd (ReportEvent env now event mem r)) = reports r \<and>
               client (snd (ReportEvent env now event mem r)) = client r \<and>
               logger (snd (ReportEvent env now event mem r)) = logger r @
                 [(Warn, ''Too many in-flight telemetry reports, dropping event'', None)]) \<and>
            length (running (reports (snd (ReportEvents env evs mem r)))) =
              min maxConcurrentReports (length (running (reports r)) + length evs) \<and>
            deliveries (running (reports (snd (ReportEvents env evs mem r)))) =
              deliveries (running (reports r)) @
                take (maxConcurrentReports - length (running (reports r))) (map snd evs) \<and>
            logger (snd (ReportEvents env evs mem r)) = logger r @
              replicate (length (running (reports r)) + length evs - maxConcurrentReports)
                (Warn, ''Too many in-flight telemetry reports, dropping event'', None) \<and>
            (Abort \<notin> set (running (reports r)) \<and>
             maxConcurrentReports \<le> length (running (reports r)) + length evs \<longrightarrow>
               length (deliveries (running (reports (snd (ReportEvents env evs mem r))))) =
                 maxConcurrentReports)"
  proof (intro impI, elim conjE)
    assume h: "os_Getenv env doNotTrackEnvName = []" and f: "\<not> shuttingDown r"
    note B = ReportEvents_burst [OF h f inv(2), of evs mem]
    have run: "running (reports (snd (ReportEvents env evs mem r))) =
           running (reports r) @
             map Deliver (take (maxConcurrentReports - length (running (reports r))) (map snd evs))"
      using B [THEN conjunct1] by (simp add: inv(1))
    have full: "length (running (reports r)) = maxConcurrentReports \<longrightarrow>
               reports (snd (ReportEvent env now event mem r)) = reports r \<and>
               client (snd (ReportEvent env now event mem r)) = client r \<and>
               logger (snd (ReportEvent env now event mem r)) = logger r @
                 [(Warn, ''Too many in-flight telemetry reports, dropping event'', None)]"
      using h f inv(1) by (simp add: ReportEvent_snd_full log_def)
    have len: "length (running (reports (snd (ReportEvents env evs mem r)))) =
              min maxConcurrentReports (length (running (reports r)) + length evs)"
      using c2 by (simp add: run)
    have del: "deliveries (running (reports (snd (ReportEvents env evs mem r)))) =
              deliveries (running (reports r)) @
                take (maxConcurrentReports - length (running (reports r))) (map snd evs)"
      by (simp add: run deliveries_append deliveries_map_Deliver)
    have lg: "logger (snd (ReportEvents env evs mem r)) = logger r @
              replicate (length (running (reports r)) + length evs - maxConcurrentReports)
                (Warn, ''Too many in-flight telemetry reports, dropping event'', None)"
      using B [THEN conjunct2] by (simp add: inv(1))
    have exact: "Abort \<notin> set (running (reports r)) \<and>
             maxConcurrentReports \<le> length (running (reports r)) + length evs \<longrightarrow>
               length (deliveries (running (reports (snd (ReportEvents env evs mem r))))) =
                 maxConcurrentReports"
      using c2 by (auto simp: del length_deliveries_no_Abort)
    from full len del lg exact
    show "(length (running (reports r)) = maxConcurrentReports \<longrightarrow>
               reports (snd (ReportEvent env now event mem r)) = reports r \<and>
               client (snd (ReportEvent env now event mem r)) = client r \<and>
               logger (snd (ReportEvent env now event mem r)) = logger r @
                 [(Warn, ''Too many in-flight telemetry reports, dropping event'', None)]) \<and>
            length (running (reports (snd (ReportEvents env evs mem r)))) =
              min maxConcurrentReports (length (running (reports r)) + length evs) \<and>
            deliveries (running (reports (snd (ReportEvents env evs mem r)))) =
              deliveries (running (reports r)) @
                take (maxConcurrentReports - length (running (reports r))) (map snd evs) \<and>
            logger (snd (ReportEvents env evs mem r)) = logger r @
              replicate (length (running (reports r)) + length evs - maxConcurrentReports)
                (Warn, ''Too many in-flight telemetry reports, dropping event'', None) \<and>
            (Abort \<notin> set (running (reports r)) \<and>
             maxConcurrentReports \<le> length (running (reports r)) + length evs \<longrightarrow>
               length (deliveries (running (reports (snd (ReportEvents env evs mem r))))) =
                 maxConcurrentReports)"
      by (intro conjI)
  qed
  have c5: "os_Getenv env doNotTrackEnvName \<noteq> [] \<or> shuttingDown r \<longrightarrow>
            reports (snd (ReportEvent env now event mem r)) = reports r \<and>
            client (snd (ReportEvent env now event mem r)) = client r \<and>
            logger (snd (ReportEvent env now event mem r)) = logger r @
              [(Debug,
                if os_Getenv env doNotTrackEnvName \<noteq> [] then ''Telemetry is disabled, dropping event''
                else ''Shutting down, dropping event'',
                None)]"
  proof (cases "os_Getenv env doNotTrackEnvName = []")
    case True
    then show ?thesis by (simp add: ReportEvent_snd_shutting log_def)
  next
    case False
    then show ?thesis by (simp add: ReportEvent_snd_optout log_def)
  qed
  from c1 c2 c3 c4 c5 show ?thesis by (intro conjI)
qed


theorem group_bounded_overflow_dropped_witness:
  "reachable (test_mem, test_reporter) \<and> os_Getenv no_environ doNotTrackEnvName = [] \<and>
   \<not> shuttingDown test_reporter \<and>
   length (running (reports (snd (ReportEvents no_environ sixteen_events test_mem test_reporter))))
     = 16 \<and>
   length (deliveries (running (reports
      (snd (ReportEvents no_environ sixteen_events test_mem test_reporter))))) = 16 \<and>
   reachable (fst at_capacity, snd at_capacity) \<and>
   length (running (reports (snd at_capacity))) = maxConcurrentReports \<and>
   reports (snd (ReportEvent no_environ 9 0 (fst at_capacity) (snd at_capacity))) =
     reports (snd at_capacity) \<and>
   logger (snd (ReportEvent no_environ 9 0 (fst at_capacity) (snd at_capacity))) =
     [(Warn, ''Too many in-flight telemetry reports, dropping event'', None)] \<and>
   reachable (test_mem, test_reporter\<lparr>shuttingDown := True\<rparr>) \<and>
   logger (snd (ReportEvent no_environ 9 0 test_mem (test_reporter\<lparr>shuttingDown := True\<rparr>))) =
     [(Debug, ''Shutting down, dropping event'', None)]"
proof -
  have h: "os_Getenv no_environ doNotTrackEnvName = []"
    by (rule no_environ_inactive)
  have f: "\<not> shuttingDown test_reporter"
    by (simp add: test_reporter_fields)
  have hf: "os_Getenv no_environ doNotTrackEnvName = [] \<and> \<not> shuttingDown test_reporter"
    using h f by (rule conjI)
  note T0 = group_bounded_overflow_dropped [OF reachable_test,
      where env = no_environ and now = 7 and event = 0 and evs = sixteen_events,
      THEN conjunct2, THEN conjunct2, THEN conjunct2, THEN conjunct1, THEN mp, OF hf]
  have a1: "length (running (reports
        (snd (ReportEvents no_environ sixteen_events test_mem test_reporter)))) = 16"
    using T0 [THEN conjunct2, THEN conjunct1]
    by (simp add: test_reporter_fields length_sixteen_events maxConcurrentReports_def)
  have ex: "Abort \<notin> set (running (reports test_reporter)) \<and>
            maxConcurrentReports \<le> length (running (reports test_reporter)) + length sixteen_events"
    by (simp add: test_reporter_fields length_sixteen_events maxConcurrentReports_def)
  have a2: "length (deliveries (running (reports
        (snd (ReportEvents no_environ sixteen_events test_mem test_reporter))))) = 16"
    using T0 [THEN conjunct2, THEN conjunct2, THEN conjunct2, THEN conjunct2, THEN mp, OF ex]
    by (simp add: maxConcurrentReports_def)
  have l: "length (running (reports (snd at_capacity))) = maxConcurrentReports"
    by (simp add: at_capacity_facts maxConcurrentReports_def)
  have hf': "os_Getenv no_environ doNotTrackEnvName = [] \<and> \<not> shuttingDown (snd at_capacity)"
    using h at_capacity_facts(2) by (rule conjI)
  note T1 = group_bounded_overflow_dropped [OF at_capacity_facts(1),
      where env = no_environ and now = 9 and event = 0 and evs = "[]",
      THEN conjunct2, THEN conjunct2, THEN conjunct2, THEN conjunct1, THEN mp, OF hf',
      THEN conjunct1, THEN mp, OF l]
  have b1: "reports (snd (ReportEvent no_environ 9 0 (fst at_capacity) (snd at_capacity))) =
     reports (snd at_capacity)"
    by (rule T1 [THEN conjunct1])
  have b2: "logger (snd (ReportEvent no_environ 9 0 (fst at_capacity) (snd at_capacity))) =
     [(Warn, ''Too many in-flight telemetry reports, dropping event'', None)]"
    using T1 [THEN conjunct2, THEN conjunct2] by (simp add: at_capacity_facts)
  have r2: "reachable (test_mem, test_reporter\<lparr>shuttingDown := True\<rparr>)"
    by (rule reachable.after [OF reachable_test step.stop])
  have sd: "os_Getenv no_environ doNotTrackEnvName \<noteq> [] \<or>
            shuttingDown (test_reporter\<lparr>shuttingDown := True\<rparr>)"
    by simp
  note T2 = group_bounded_overflow_dropped [OF r2,
      where env = no_environ and now = 9 and event = 0 and evs = "[]",
      THEN conjunct2, THEN conjunct2, THEN conjunct2, THEN conjunct2, THEN mp, OF sd]
  have c: "logger (snd (ReportEvent no_environ 9 0 test_mem (test_reporter\<lparr>shuttingDown := True\<rparr>))) =
     [(Debug, ''Shutting down, dropping event'', None)]"
    using T2 [THEN conjunct2, THEN conjunct2] h by (simp add: test_reporter_fields)
  show ?thesis
    by (intro conjI) (rule reachable_test h f a1 a2 at_capacity_facts(1) l b1 b2 r2 c)+
qed

section \<open>Shutdown\<close>

lemma not_canceled_once:
  "e' = e \<or> (e = None \<and> e' = Some Canceled) \<Longrightarrow> not_canceled e' = not_canceled e"
  by (auto simp: not_canceled_def)

lemma shutdown_select_Close:
  "running (reports r) \<noteq> [] \<or> tie \<Longrightarrow>
     shutdown_select sched tie (Some 0) mem r = Close sched mem r"
  by (subst shutdown_select.simps) simp

lemma shutdown_select_ready:
  "\<not> (ctx = Some 0 \<and> tie) \<Longrightarrow> running (reports r) = [] \<Longrightarrow>
     shutdown_select sched tie ctx mem r =
       Some (not_canceled (err (reports r)), r\<lparr>reports := (reports r)\<lparr>cancelled := True\<rparr>\<rparr>)"
  by (subst shutdown_select.simps) (auto simp: Wait_op_def Wait_def)

lemma shutdown_select_blocked:
  "ctx \<noteq> Some 0 \<Longrightarrow> running (reports r) \<noteq> [] \<Longrightarrow>
     shutdown_select sched tie ctx mem r =
       shutdown_select sched tie (map_option (\<lambda>n. n - 1) ctx) mem (next_goroutine sched mem r)"
  by (subst shutdown_select.simps) (simp add: Wait_op_def Wait_def)

lemma shutdown_select_result:
  assumes "0 < sem (reports r)"
  shows "\<exists>r'. shutdown_select sched tie ctx mem r = Some (not_canceled (err (reports r)), r') \<and>
           running (reports r') = [] \<and> cancelled (reports r') \<and>
           shuttingDown r' = shuttingDown r \<and>
           not_canceled (err (reports r')) = not_canceled (err (reports r))"
  using assms
proof (induction sched tie ctx mem r rule: shutdown_select.induct)
  case (1 sched tie ctx mem r)
  show ?case
  proof (cases "ctx = Some 0 \<and> (running (reports r) \<noteq> [] \<or> tie)")
    case True
    then have eq: "shutdown_select sched tie ctx mem r = Close sched mem r"
      using shutdown_select_Close [of r tie sched mem] by auto
    obtain r' where c: "Close sched mem r = Some (not_canceled (err (reports r)), r')"
      and run: "running (reports r') = []" and can: "cancelled (reports r')"
      and e: "err (reports r') = Some (case err (reports r) of None \<Rightarrow> Canceled | Some x \<Rightarrow> x)"
      and fl: "shuttingDown r' = shuttingDown r"
      using Close_result [OF "1.prems", of sched mem] by blast
    have "not_canceled (err (reports r')) = not_canceled (err (reports r))"
      by (cases "err (reports r)") (simp_all add: e not_canceled_def)
    with eq c run can fl show ?thesis by simp
  next
    case False
    show ?thesis
    proof (cases "running (reports r) = []")
      case True
      with False have "\<not> (ctx = Some 0 \<and> tie)" by simp
      from shutdown_select_ready [OF this True, of sched mem]
      show ?thesis using True by simp
    next
      case busy: False
      with False have c0: "ctx \<noteq> Some 0" by simp
      have w: "Wait_op r = None" using busy by (simp add: Wait_op_None)
      have sem': "0 < sem (reports (next_goroutine sched mem r))"
        using "1.prems" next_goroutine_frame(1) [OF busy, of sched mem] by simp
      from "1.IH" [OF False w sem']
      obtain r' where s: "shutdown_select sched tie (map_option (\<lambda>n. n - 1) ctx) mem
              (next_goroutine sched mem r) =
            Some (not_canceled (err (reports (next_goroutine sched mem r))), r')"
        and run: "running (reports r') = []" and can: "cancelled (reports r')"
        and fl: "shuttingDown r' = shuttingDown (next_goroutine sched mem r)"
        and nc: "not_canceled (err (reports r')) =
                 not_canceled (err (reports (next_goroutine sched mem r)))"
        by blast
      have same: "not_canceled (err (reports (next_goroutine sched mem r))) =
                  not_canceled (err (reports r))"
        by (rule not_canceled_once [OF next_goroutine_frame(4) [OF busy]])
      have "shutdown_select sched tie ctx mem r =
              Some (not_canceled (err (reports r)), r')"
        using shutdown_select_blocked [OF c0 busy, of sched tie mem] s same by simp
      with run can fl nc same next_goroutine_frame(2) [OF busy, of sched mem]
      show ?thesis by simp
    qed
  qed
qed

lemma shutdown_select_deadline:
  "k \<le> length (running (reports r)) \<Longrightarrow> (k = length (running (reports r)) \<longrightarrow> tie) \<Longrightarrow>
     shutdown_select sched tie (Some k) mem r =
       Close sched mem ((next_goroutine sched mem ^^ k) r)"
proof (induction k arbitrary: r)
  case 0
  then have "running (reports r) \<noteq> [] \<or> tie" by auto
  then show ?case by (simp add: shutdown_select_Close)
next
  case (Suc k)
  then have busy: "running (reports r) \<noteq> []" by auto
  have len: "length (running (reports (next_goroutine sched mem r))) =
             length (running (reports r)) - 1"
    by (rule next_goroutine_frame(6) [OF busy])
  have le: "k \<le> length (running (reports (next_goroutine sched mem r)))"
    using Suc.prems(1) len by simp
  have t: "k = length (running (reports (next_goroutine sched mem r))) \<longrightarrow> tie"
    using Suc.prems len by auto
  have "shutdown_select sched tie (Some (Suc k)) mem r =
          shutdown_select sched tie (Some k) mem (next_goroutine sched mem r)"
    using shutdown_select_blocked [OF _ busy, of "Some (Suc k)" sched tie mem] by simp
  also have "\<dots> = Close sched mem ((next_goroutine sched mem ^^ k) (next_goroutine sched mem r))"
    by (rule Suc.IH [OF le t])
  finally show ?case by (simp add: funpow_swap1)
qed

lemma shutdown_select_tasks_first:
  "ctx = None \<or> (\<exists>k. ctx = Some k \<and>
       (length (running (reports r)) < k \<or> (k = length (running (reports r)) \<and> \<not> tie))) \<Longrightarrow>
     shutdown_select sched tie ctx mem r =
       map_option (\<lambda>(e, s). (not_canceled e, s)) (await sched mem Wait_op r)"
proof (induction sched tie ctx mem r rule: shutdown_select.induct)
  case (1 sched tie ctx mem r)
  show ?case
  proof (cases "running (reports r) = []")
    case True
    have nt: "\<not> (ctx = Some 0 \<and> tie)"
      using "1.prems" True by auto
    have "await sched mem Wait_op r =
            Some (err (reports r), r\<lparr>reports := (reports r)\<lparr>cancelled := True\<rparr>\<rparr>)"
      using True by (intro await_ready) (simp add: Wait_op_def Wait_def)
    with shutdown_select_ready [OF nt True, of sched mem] show ?thesis by simp
  next
    case busy: False
    have c0: "ctx \<noteq> Some 0"
      using "1.prems" busy by auto
    have nc: "\<not> (ctx = Some 0 \<and> (running (reports r) \<noteq> [] \<or> tie))"
      using c0 by simp
    have w: "Wait_op r = None" using busy by (simp add: Wait_op_None)
    have len: "length (running (reports (next_goroutine sched mem r))) =
               length (running (reports r)) - 1"
      by (rule next_goroutine_frame(6) [OF busy])
    obtain n where pos: "length (running (reports r)) = Suc n"
      using busy by (cases "running (reports r)") auto
    have p': "map_option (\<lambda>n. n - 1) ctx = None \<or>
          (\<exists>k. map_option (\<lambda>n. n - 1) ctx = Some k \<and>
             (length (running (reports (next_goroutine sched mem r))) < k \<or>
              (k = length (running (reports (next_goroutine sched mem r))) \<and> \<not> tie)))"
    proof (cases ctx)
      case None
      then show ?thesis by simp
    next
      case (Some k)
      with "1.prems" have "Suc n < k \<or> (k = Suc n \<and> \<not> tie)"
        using pos by simp
      then have "n < k - 1 \<or> (k - 1 = n \<and> \<not> tie)" by auto
      with Some len pos show ?thesis by simp
    qed
    have "shutdown_select sched tie ctx mem r =
            shutdown_select sched tie (map_option (\<lambda>n. n - 1) ctx) mem
              (next_goroutine sched mem r)"
      by (rule shutdown_select_blocked [OF c0 busy])
    also have "\<dots> = map_option (\<lambda>(e, s). (not_canceled e, s))
                       (await sched mem Wait_op (next_goroutine sched mem r))"
      by (rule "1.IH" [OF nc w p'])
    also have "await sched mem Wait_op (next_goroutine sched mem r) = await sched mem Wait_op r"
      by (rule await_blocked [where op = Wait_op, OF w busy, symmetric])
    finally show ?thesis .
  qed
qed

lemma reachable_not_canceled:
  "reachable (mem, r) \<Longrightarrow> not_canceled (err (reports r)) = None"
  using reachable_invariant [of "(mem, r)"] by (auto simp: not_canceled_def)

text \<open>
  Claim C5. For a reporter whose group has the limit \<^verbatim>\<open>NewReporter\<close> gave it,
  \<^verbatim>\<open>Shutdown\<close> returns, whatever the scheduler, the deadline and the choice of the
  \<^verbatim>\<open>select\<close>. It stores the shutting-down flag first, and the flag is set in the
  final state, in which no goroutine of the group runs and the shared context
  is cancelled. If the deadline elapses first, that is after k goroutines have
  ended while others still run (or just as the last one ends and the \<^verbatim>\<open>select\<close>
  takes \<^verbatim>\<open>ctx.Done()\<close>), the result is the result of \<^verbatim>\<open>Close\<close> in the state reached
  then. If all tasks finish first, the result is that of the group's \<^verbatim>\<open>Wait\<close>
  with its error filtered: nil for no error and for a cancellation, the error
  itself otherwise. The value returned is always the filtered error of the
  group, which in every state of an execution is nil.
\<close>

theorem Shutdown_waits_or_closes:
  assumes "sem (reports r) = maxConcurrentReports"
  shows "(\<exists>e r'. Shutdown sched tie ctx mem r = Some (e, r') \<and>
            shuttingDown r' \<and> running (reports r') = [] \<and> cancelled (reports r') \<and>
            e = not_canceled (err (reports r')) \<and> e = not_canceled (err (reports r)) \<and>
            (reachable (mem, r) \<longrightarrow> e = None)) \<and>
         (\<forall>k. ctx = Some k \<and>
              (k < length (running (reports r)) \<or> (k = length (running (reports r)) \<and> tie)) \<longrightarrow>
            Shutdown sched tie ctx mem r =
              Close sched mem ((next_goroutine sched mem ^^ k) (r\<lparr>shuttingDown := True\<rparr>))) \<and>
         (ctx = None \<or> (\<exists>k. ctx = Some k \<and>
              (length (running (reports r)) < k \<or> (k = length (running (reports r)) \<and> \<not> tie))) \<longrightarrow>
            Shutdown sched tie ctx mem r =
              map_option (\<lambda>(e, s). (not_canceled e, s))
                (await sched mem Wait_op (r\<lparr>shuttingDown := True\<rparr>))) \<and>
         not_canceled None = None \<and>
         (\<forall>x. not_canceled (Some x) = (if errors_Is x Canceled then None else Some x))"
proof -
  let ?r = "r\<lparr>shuttingDown := True\<rparr>"
  have pos: "0 < sem (reports ?r)"
    using assms by (simp add: maxConcurrentReports_def)
  obtain r' where s: "shutdown_select sched tie ctx mem ?r =
        Some (not_canceled (err (reports ?r)), r')"
    and run: "running (reports r') = []" and can: "cancelled (reports r')"
    and fl: "shuttingDown r' = shuttingDown ?r"
    and nc: "not_canceled (err (reports r')) = not_canceled (err (reports ?r))"
    using shutdown_select_result [OF pos, of sched tie ctx mem] by blast
  have first: "\<exists>e r'. Shutdown sched tie ctx mem r = Some (e, r') \<and>
            shuttingDown r' \<and> running (reports r') = [] \<and> cancelled (reports r') \<and>
            e = not_canceled (err (reports r')) \<and> e = not_canceled (err (reports r)) \<and>
            (reachable (mem, r) \<longrightarrow> e = None)"
    using s run can fl nc reachable_not_canceled [of mem r] by (auto simp: Shutdown_def)
  have second: "\<forall>k. ctx = Some k \<and>
              (k < length (running (reports r)) \<or> (k = length (running (reports r)) \<and> tie)) \<longrightarrow>
            Shutdown sched tie ctx mem r =
              Close sched mem ((next_goroutine sched mem ^^ k) ?r)"
  proof (intro allI impI, elim conjE)
    fix k
    assume c: "ctx = Some k"
      and k: "k < length (running (reports r)) \<or> (k = length (running (reports r)) \<and> tie)"
    have le: "k \<le> length (running (reports ?r))" using k by auto
    have t: "k = length (running (reports ?r)) \<longrightarrow> tie" using k by auto
    show "Shutdown sched tie ctx mem r = Close sched mem ((next_goroutine sched mem ^^ k) ?r)"
      unfolding Shutdown_def c by (rule shutdown_select_deadline [OF le t])
  qed
  have third: "ctx = None \<or> (\<exists>k. ctx = Some k \<and>
              (length (running (reports r)) < k \<or> (k = length (running (reports r)) \<and> \<not> tie))) \<longrightarrow>
            Shutdown sched tie ctx mem r =
              map_option (\<lambda>(e, s). (not_canceled e, s)) (await sched mem Wait_op ?r)"
  proof
    assume "ctx = None \<or> (\<exists>k. ctx = Some k \<and>
              (length (running (reports r)) < k \<or> (k = length (running (reports r)) \<and> \<not> tie)))"
    then have "ctx = None \<or> (\<exists>k. ctx = Some k \<and>
              (length (running (reports ?r)) < k \<or> (k = length (running (reports ?r)) \<and> \<not> tie)))"
      by simp
    then show "Shutdown sched tie ctx mem r =
              map_option (\<lambda>(e, s). (not_canceled e, s)) (await sched mem Wait_op ?r)"
      unfolding Shutdown_def by (rule shutdown_select_tasks_first)
  qed
  have fourth: "not_canceled None = None"
    by (simp add: not_canceled_def)
  have fifth: "\<forall>x. not_canceled (Some x) = (if errors_Is x Canceled then None else Some x)"
    by (simp add: not_canceled_def)
  from first second third fourth fifth show ?thesis by (intro conjI)
qed

theorem Shutdown_waits_or_closes_witness:
  "sem (reports (snd reported_once)) = maxConcurrentReports \<and>
   reachable (fst reported_once, snd reported_once) \<and>
   map_option fst (Shutdown fifo False None (fst reported_once) (snd reported_once)) = Some None \<and>
   shuttingDown (snd (the (Shutdown fifo False None (fst reported_once) (snd reported_once)))) \<and>
   running (reports (snd (the (Shutdown fifo False None (fst reported_once) (snd reported_once)))))
     = [] \<and>
   Shutdown fifo False (Some 0) (fst reported_once) (snd reported_once) =
     Close fifo (fst reported_once) ((snd reported_once)\<lparr>shuttingDown := True\<rparr>) \<and>
   Shutdown fifo False None (fst reported_once) (snd reported_once) =
     map_option (\<lambda>(e, s). (not_canceled e, s))
       (await fifo (fst reported_once) Wait_op ((snd reported_once)\<lparr>shuttingDown := True\<rparr>))"
proof -
  let ?m = "fst reported_once"
  let ?r = "snd reported_once"
  have sem: "sem (reports ?r) = maxConcurrentReports"
    by (simp add: reported_once_eq test_reporter_fields maxConcurrentReports_def)
  have re: "reachable (?m, ?r)"
    unfolding reported_once_def by (rule reachable_report [OF reachable_test])
  note T = Shutdown_waits_or_closes [OF sem]
  from T [of fifo False None ?m, THEN conjunct1]
  obtain e r' where s: "Shutdown fifo False None ?m ?r = Some (e, r')"
    and fl: "shuttingDown r'" and run: "running (reports r') = []"
    and nil: "reachable (?m, ?r) \<longrightarrow> e = None"
    by blast
  from nil re have "e = None" by simp
  with s fl run have a: "map_option fst (Shutdown fifo False None ?m ?r) = Some None"
    and b: "shuttingDown (snd (the (Shutdown fifo False None ?m ?r)))"
    and c: "running (reports (snd (the (Shutdown fifo False None ?m ?r)))) = []"
    by simp_all
  have k: "Some 0 = Some (0::nat) \<and>
           (0 < length (running (reports ?r)) \<or> (0 = length (running (reports ?r)) \<and> False))"
    by (simp add: reported_once_eq)
  have d: "Shutdown fifo False (Some 0) ?m ?r = Close fifo ?m (?r\<lparr>shuttingDown := True\<rparr>)"
    using T [of fifo False "Some 0" ?m, THEN conjunct2, THEN conjunct1, THEN spec, of 0,
        THEN mp, OF k]
    by simp
  have n: "None = (None :: nat option) \<or> (\<exists>k. None = Some k \<and>
              (length (running (reports ?r)) < k \<or> (k = length (running (reports ?r)) \<and> \<not> False)))"
    by simp
  have f: "Shutdown fifo False None ?m ?r =
     map_option (\<lambda>(e, s). (not_canceled e, s))
       (await fifo ?m Wait_op (?r\<lparr>shuttingDown := True\<rparr>))"
    by (rule T [of fifo False None ?m, THEN conjunct2, THEN conjunct2, THEN conjunct1,
          THEN mp, OF n])
  show ?thesis
    by (intro conjI) (rule sem re a b c d f)+
qed

section \<open>No admission once shutdown has begun\<close>

lemma step_keeps_flag:
  assumes "step s s'" and "shuttingDown (snd s)"
  shows "shuttingDown (snd s')"
  using assms
proof (cases rule: step.cases)
  case (report mem r env now event)
  then have "snd s' = snd (ReportEvent env now event mem r)" by simp
  with report assms(2) show ?thesis by (simp add: ReportEvent_frame)
next
  case (ends i r mem h)
  with assms(2) show ?thesis by (simp add: goroutine_group)
qed (use assms(2) in simp_all)

lemma steps_keep_flag:
  "rtranclp step s s' \<Longrightarrow> shuttingDown (snd s) \<Longrightarrow> shuttingDown (snd s')"
  by (induction rule: rtranclp_induct) (auto intro: step_keeps_flag)

lemma Close_test_reporter: "Close sched mem test_reporter = Some (None, closed_reporter)"
proof -
  have idle: "running (reports test_reporter) = []" and pos: "0 < sem (reports test_reporter)"
    by (simp_all add: test_reporter_fields)
  show ?thesis
    by (simp add: Close_idle [OF idle pos] test_reporter_fields closed_reporter_def
        not_canceled_def)
qed

lemma closed_reporter_fields:
  "logger closed_reporter = []" "calls (client closed_reporter) = []"
  "reports closed_reporter = \<lparr>sem = 16, running = [], err = Some Canceled, cancelled = True\<rparr>"
  "\<not> shuttingDown closed_reporter" "sessionID closed_reporter = ''0123456789abcdef''"
  "tags closed_reporter = [''test-tag'']"
  by (simp_all add: closed_reporter_def test_reporter_fields)

text \<open>
  Claim C4, as stated, fails for \<^verbatim>\<open>Close\<close>, which does not store the shutting-down
  flag. After \<^verbatim>\<open>Close\<close> has returned on the reporter of the test, a \<^verbatim>\<open>ReportEvent\<close>
  is admitted: a delivery task starts, and its goroutine invokes the delivery
  client (with the context that \<^verbatim>\<open>Close\<close> cancelled).
\<close>

theorem admitted_after_Close_counterexample:
  "Close fifo test_mem test_reporter = Some (None, closed_reporter) \<and>
   \<not> shuttingDown closed_reporter \<and>
   os_Getenv no_environ doNotTrackEnvName = [] \<and>
   running (reports (snd (ReportEvent no_environ 7 0 test_mem closed_reporter))) = [Deliver 0] \<and>
   calls (client (goroutine 0 http_ok (fst (ReportEvent no_environ 7 0 test_mem closed_reporter))
      (snd (ReportEvent no_environ 7 0 test_mem closed_reporter)))) =
     [(True, test_event\<lparr>Timestamp := Some 7, SessionID := ''0123456789abcdef'',
                         Tags := [''test-tag'']\<rparr>)]"
proof -
  have h: "os_Getenv no_environ doNotTrackEnvName = []"
    by (rule no_environ_inactive)
  have f: "\<not> shuttingDown closed_reporter" by (simp add: closed_reporter_fields)
  have c: "length (running (reports closed_reporter)) < sem (reports closed_reporter)"
    by (simp add: closed_reporter_fields)
  have m: "fst (ReportEvent no_environ 7 0 test_mem closed_reporter) 0 =
      test_event\<lparr>Timestamp := Some 7, SessionID := ''0123456789abcdef'', Tags := [''test-tag'']\<rparr>"
    by (simp add: ReportEvent_fst [OF h] closed_reporter_fields) (simp add: test_mem_def test_event_def)
  have r: "snd (ReportEvent no_environ 7 0 test_mem closed_reporter) =
      closed_reporter\<lparr>reports := (reports closed_reporter)\<lparr>running := [Deliver 0]\<rparr>\<rparr>"
    by (simp add: ReportEvent_snd_admitted [OF h f c] closed_reporter_fields)
  have run: "running (reports (snd (ReportEvent no_environ 7 0 test_mem closed_reporter))) =
      [Deliver 0]"
    by (simp add: r)
  have call: "calls (client (goroutine 0 http_ok (fst (ReportEvent no_environ 7 0 test_mem closed_reporter))
      (snd (ReportEvent no_environ 7 0 test_mem closed_reporter)))) =
     [(True, test_event\<lparr>Timestamp := Some 7, SessionID := ''0123456789abcdef'',
                         Tags := [''test-tag'']\<rparr>)]"
    by (simp add: r goroutine_Deliver calls_client_ReportEvent Let_def m closed_reporter_fields)
  show ?thesis
    by (intro conjI) (rule Close_test_reporter f h run call)+
qed

text \<open>
  Claim C4, amended. Once \<^verbatim>\<open>Shutdown\<close> has been invoked, which stores the
  shutting-down flag before anything else, the flag stays set in every later
  state of the execution, and no new delivery task starts: every subsequent
  \<^verbatim>\<open>ReportEvent\<close> leaves the group and the delivery client as they are, and with
  the opt-out signal inactive it enriches the event and then drops it before
  admission, with one debug line. \<^verbatim>\<open>Close\<close> does not set the flag: it returns with
  the flag as it found it.
\<close>

theorem no_admission_after_Shutdown:
  assumes "rtranclp step (mem, r\<lparr>shuttingDown := True\<rparr>) (mem', r')"
  shows "shuttingDown r' \<and>
         reports (snd (ReportEvent env now event mem' r')) = reports r' \<and>
         client (snd (ReportEvent env now event mem' r')) = client r' \<and>
         (os_Getenv env doNotTrackEnvName = [] \<longrightarrow>
            fst (ReportEvent env now event mem' r') event =
              (mem' event)\<lparr>Timestamp := Some now,
                 SessionID := (if SessionID (mem' event) = [] then sessionID r'
                               else SessionID (mem' event)),
                 Tags := Tags (mem' event) @ tags r'\<rparr> \<and>
            logger (snd (ReportEvent env now event mem' r')) =
              logger r' @ [(Debug, ''Shutting down, dropping event'', None)]) \<and>
         (0 < sem (reports r) \<longrightarrow>
            (\<exists>e rc. Close sched mem r = Some (e, rc) \<and> shuttingDown rc = shuttingDown r))"
proof -
  have fl: "shuttingDown r'"
    using steps_keep_flag [OF assms] by simp
  have grp: "reports (snd (ReportEvent env now event mem' r')) = reports r' \<and>
         client (snd (ReportEvent env now event mem' r')) = client r'"
  proof (cases "os_Getenv env doNotTrackEnvName = []")
    case True
    then show ?thesis using fl by (simp add: ReportEvent_snd_shutting log_def)
  next
    case False
    then show ?thesis by (simp add: ReportEvent_snd_optout log_def)
  qed
  have enr: "os_Getenv env doNotTrackEnvName = [] \<longrightarrow>
            fst (ReportEvent env now event mem' r') event =
              (mem' event)\<lparr>Timestamp := Some now,
                 SessionID := (if SessionID (mem' event) = [] then sessionID r'
                               else SessionID (mem' event)),
                 Tags := Tags (mem' event) @ tags r'\<rparr> \<and>
            logger (snd (ReportEvent env now event mem' r')) =
              logger r' @ [(Debug, ''Shutting down, dropping event'', None)]"
    using fl by (simp add: ReportEvent_fst ReportEvent_snd_shutting log_def)
  have cl: "0 < sem (reports r) \<longrightarrow>
            (\<exists>e rc. Close sched mem r = Some (e, rc) \<and> shuttingDown rc = shuttingDown r)"
    using Close_result [of r sched mem] by blast
  from fl grp enr cl show ?thesis by (intro conjI) simp_all
qed

theorem no_admission_after_Shutdown_witness:
  "rtranclp step (test_mem, test_reporter\<lparr>shuttingDown := True\<rparr>)
     (fst (ReportEvent no_environ 7 0 test_mem (test_reporter\<lparr>shuttingDown := True\<rparr>)),
      snd (ReportEvent no_environ 7 0 test_mem (test_reporter\<lparr>shuttingDown := True\<rparr>))) \<and>
   os_Getenv no_environ doNotTrackEnvName = [] \<and>
   shuttingDown (snd (ReportEvent no_environ 7 0 test_mem (test_reporter\<lparr>shuttingDown := True\<rparr>))) \<and>
   running (reports (snd (ReportEvent no_environ 8 1
      (fst (ReportEvent no_environ 7 0 test_mem (test_reporter\<lparr>shuttingDown := True\<rparr>)))
      (snd (ReportEvent no_environ 7 0 test_mem (test_reporter\<lparr>shuttingDown := True\<rparr>)))))) = [] \<and>
   logger (snd (ReportEvent no_environ 8 1
      (fst (ReportEvent no_environ 7 0 test_mem (test_reporter\<lparr>shuttingDown := True\<rparr>)))
      (snd (ReportEvent no_environ 7 0 test_mem (test_reporter\<lparr>shuttingDown := True\<rparr>))))) =
     [(Debug, ''Shutting down, dropping event'', None),
      (Debug, ''Shutting down, dropping event'', None)] \<and>
   0 < sem (reports test_reporter) \<and>
   map_option (\<lambda>(e, rc). shuttingDown rc) (Close fifo test_mem test_reporter) = Some False"
proof -
  let ?flagged = "test_reporter\<lparr>shuttingDown := True\<rparr>"
  let ?m = "fst (ReportEvent no_environ 7 0 test_mem ?flagged)"
  let ?r = "snd (ReportEvent no_environ 7 0 test_mem ?flagged)"
  have h: "os_Getenv no_environ doNotTrackEnvName = []"
    by (rule no_environ_inactive)
  have st: "rtranclp step (test_mem, ?flagged) (?m, ?r)"
    using step.report [of test_mem ?flagged no_environ 7 0] by (simp add: r_into_rtranclp)
  have r: "?r = log Debug ''Shutting down, dropping event'' None ?flagged"
    by (simp add: ReportEvent_snd_shutting [OF h])
  note T = no_admission_after_Shutdown [OF st, of no_environ 8 1 fifo]
  have a: "shuttingDown ?r" by (rule T [THEN conjunct1])
  have b: "running (reports (snd (ReportEvent no_environ 8 1 ?m ?r))) = []"
    using T [THEN conjunct2, THEN conjunct1] by (simp add: r log_def test_reporter_fields)
  have c: "logger (snd (ReportEvent no_environ 8 1 ?m ?r)) =
     [(Debug, ''Shutting down, dropping event'', None),
      (Debug, ''Shutting down, dropping event'', None)]"
    using T [THEN conjunct2, THEN conjunct2, THEN conjunct2, THEN conjunct1, THEN mp, OF h,
        THEN conjunct2]
    by (simp add: r log_def test_reporter_fields)
  have pos: "0 < sem (reports test_reporter)" by (simp add: test_reporter_fields)
  from T [THEN conjunct2, THEN conjunct2, THEN conjunct2, THEN conjunct2, THEN mp, OF pos]
  obtain e rc where cl: "Close fifo test_mem test_reporter = Some (e, rc)"
    and fl: "shuttingDown rc = shuttingDown test_reporter"
    by blast
  have d: "map_option (\<lambda>(e, rc). shuttingDown rc) (Close fifo test_mem test_reporter) = Some False"
    using cl fl by (simp add: test_reporter_fields)
  show ?thesis
    by (intro conjI) (rule st h a b c pos d)+
qed

section \<open>Shutdown with an expired deadline, and Close\<close>

lemma reported_once_fields:
  "sem (reports (snd reported_once)) = 16" "running (reports (snd reported_once)) = [Deliver 0]"
  "\<not> shuttingDown (snd reported_once)"
  by (simp_all add: reported_once_eq test_reporter_fields)

text \<open>
  Claim C8, as stated, fails: the two final states are not the same. With one
  delivery in flight, \<^verbatim>\<open>Shutdown\<close> with an expired deadline ends with the
  shutting-down flag set and \<^verbatim>\<open>Close\<close> with the flag clear, and the difference
  can be observed: a \<^verbatim>\<open>ReportEvent\<close> that follows is dropped after \<^verbatim>\<open>Shutdown\<close> and
  admitted after \<^verbatim>\<open>Close\<close>.
\<close>

theorem expired_Shutdown_differs_counterexample:
  "Shutdown fifo False (Some 0) (fst reported_once) (snd reported_once) \<noteq> None \<and>
   Close fifo (fst reported_once) (snd reported_once) \<noteq> None \<and>
   shuttingDown (snd (the (Shutdown fifo False (Some 0) (fst reported_once) (snd reported_once)))) \<and>
   \<not> shuttingDown (snd (the (Close fifo (fst reported_once) (snd reported_once)))) \<and>
   os_Getenv no_environ doNotTrackEnvName = [] \<and>
   running (reports (snd (ReportEvent no_environ 8 1 (fst reported_once)
      (snd (the (Shutdown fifo False (Some 0) (fst reported_once) (snd reported_once))))))) = [] \<and>
   running (reports (snd (ReportEvent no_environ 8 1 (fst reported_once)
      (snd (the (Close fifo (fst reported_once) (snd reported_once))))))) = [Deliver 1]"
proof -
  let ?m = "fst reported_once"
  let ?r = "snd reported_once"
  have h: "os_Getenv no_environ doNotTrackEnvName = []"
    by (rule no_environ_inactive)
  have pos: "0 < sem (reports ?r)" by (simp add: reported_once_fields)
  obtain rc where c: "Close fifo ?m ?r = Some (not_canceled (err (reports ?r)), rc)"
    and crun: "running (reports rc) = []" and cfl: "shuttingDown rc = shuttingDown ?r"
    and csem: "sem (reports rc) = sem (reports ?r)"
    using Close_result [OF pos, of fifo ?m] by blast
  have pos': "0 < sem (reports (?r\<lparr>shuttingDown := True\<rparr>))" using pos by simp
  obtain rs where s: "shutdown_select fifo False (Some 0) ?m (?r\<lparr>shuttingDown := True\<rparr>) =
        Some (not_canceled (err (reports (?r\<lparr>shuttingDown := True\<rparr>))), rs)"
    and srun: "running (reports rs) = []"
    and sfl: "shuttingDown rs = shuttingDown (?r\<lparr>shuttingDown := True\<rparr>)"
    using shutdown_select_result [OF pos', of fifo False "Some 0" ?m] by blast
  have rc: "snd (the (Close fifo ?m ?r)) = rc" by (simp add: c)
  have rs: "snd (the (Shutdown fifo False (Some 0) ?m ?r)) = rs" by (simp add: Shutdown_def s)
  have s0: "Shutdown fifo False (Some 0) ?m ?r \<noteq> None" by (simp add: Shutdown_def s)
  have c0: "Close fifo ?m ?r \<noteq> None" by (simp add: c)
  have a: "shuttingDown (snd (the (Shutdown fifo False (Some 0) ?m ?r)))"
    by (simp add: rs sfl)
  have b: "\<not> shuttingDown (snd (the (Close fifo ?m ?r)))"
    by (simp add: rc cfl reported_once_fields)
  have d: "running (reports (snd (ReportEvent no_environ 8 1 ?m
      (snd (the (Shutdown fifo False (Some 0) ?m ?r)))))) = []"
    by (simp add: rs ReportEvent_running sfl srun)
  have e: "running (reports (snd (ReportEvent no_environ 8 1 ?m
      (snd (the (Close fifo ?m ?r)))))) = [Deliver 1]"
    by (simp add: rc ReportEvent_running h cfl crun csem reported_once_fields)
  show ?thesis
    by (intro conjI) (rule s0 c0 a b h d e)+
qed

text \<open>
  Claim C8, amended. For a reporter whose group has the limit \<^verbatim>\<open>NewReporter\<close> gave
  it, \<^verbatim>\<open>Shutdown\<close> with an already expired deadline and \<^verbatim>\<open>Close\<close> both return, with
  the same value, and both end in a state in which no goroutine of the group
  runs and the shared context is cancelled, with the same log and the same
  invocations of the delivery client. The final states are not the same:
  \<^verbatim>\<open>Shutdown\<close> ends with the shutting-down flag set, \<^verbatim>\<open>Close\<close> with the flag as it
  was. When tasks are in flight, or the \<^verbatim>\<open>select\<close> takes \<^verbatim>\<open>ctx.Done()\<close>, the flag
  is the only difference.
\<close>

theorem expired_Shutdown_like_Close:
  assumes "sem (reports r) = maxConcurrentReports"
  shows "\<exists>e r1 r2. Shutdown sched tie (Some 0) mem r = Some (e, r1) \<and>
           Close sched mem r = Some (e, r2) \<and>
           running (reports r1) = [] \<and> running (reports r2) = [] \<and>
           cancelled (reports r1) \<and> cancelled (reports r2) \<and>
           logger r1 = logger r2 \<and> client r1 = client r2 \<and>
           shuttingDown r1 \<and> shuttingDown r2 = shuttingDown r \<and>
           (running (reports r) \<noteq> [] \<or> tie \<longrightarrow> r1 = r2\<lparr>shuttingDown := True\<rparr>)"
proof -
  have pos: "0 < sem (reports r)"
    using assms by (simp add: maxConcurrentReports_def)
  obtain r2 where c: "Close sched mem r = Some (not_canceled (err (reports r)), r2)"
    and run2: "running (reports r2) = []" and can2: "cancelled (reports r2)"
    and fl2: "shuttingDown r2 = shuttingDown r"
    using Close_result [OF pos, of sched mem] by blast
  show ?thesis
  proof (cases "running (reports r) \<noteq> [] \<or> tie")
    case True
    then have "running (reports (r\<lparr>shuttingDown := True\<rparr>)) \<noteq> [] \<or> tie" by simp
    then have "Shutdown sched tie (Some 0) mem r = Close sched mem (r\<lparr>shuttingDown := True\<rparr>)"
      unfolding Shutdown_def by (rule shutdown_select_Close)
    then have "Shutdown sched tie (Some 0) mem r =
        Some (not_canceled (err (reports r)), r2\<lparr>shuttingDown := True\<rparr>)"
      by (simp add: Close_flag c)
    with c run2 can2 fl2 show ?thesis by simp
  next
    case False
    then have idle: "running (reports r) = []" and nt: "\<not> tie" by simp_all
    have idle': "running (reports (r\<lparr>shuttingDown := True\<rparr>)) = []" using idle by simp
    have nt': "\<not> (Some 0 = Some (0::nat) \<and> tie)" using nt by simp
    have s: "Shutdown sched tie (Some 0) mem r =
        Some (not_canceled (err (reports r)),
              r\<lparr>shuttingDown := True, reports := (reports r)\<lparr>cancelled := True\<rparr>\<rparr>)"
      unfolding Shutdown_def
      using shutdown_select_ready [OF nt' idle', of sched mem] by simp
    have c': "Close sched mem r =
        Some (not_canceled (err (reports r)),
              r\<lparr>reports := (reports r)\<lparr>err := Some (case err (reports r) of
                     None \<Rightarrow> Canceled | Some x \<Rightarrow> x), cancelled := True\<rparr>\<rparr>)"
      by (rule Close_idle [OF idle pos])
    from s c' idle nt show ?thesis by simp
  qed
qed

theorem expired_Shutdown_like_Close_witness:
  "sem (reports (snd reported_once)) = maxConcurrentReports \<and>
   map_option fst (Shutdown fifo False (Some 0) (fst reported_once) (snd reported_once)) =
     map_option fst (Close fifo (fst reported_once) (snd reported_once)) \<and>
   running (reports (snd (the (Shutdown fifo False (Some 0) (fst reported_once) (snd reported_once)))))
     = [] \<and>
   running (reports (snd (the (Close fifo (fst reported_once) (snd reported_once))))) = [] \<and>
   snd (the (Shutdown fifo False (Some 0) (fst reported_once) (snd reported_once))) =
     (snd (the (Close fifo (fst reported_once) (snd reported_once))))\<lparr>shuttingDown := True\<rparr>"
proof -
  let ?m = "fst reported_once"
  let ?r = "snd reported_once"
  have sem: "sem (reports ?r) = maxConcurrentReports"
    by (simp add: reported_once_fields maxConcurrentReports_def)
  from expired_Shutdown_like_Close [OF sem, of fifo False ?m]
  obtain e r1 r2 where s: "Shutdown fifo False (Some 0) ?m ?r = Some (e, r1)"
    and c: "Close fifo ?m ?r = Some (e, r2)"
    and run1: "running (reports r1) = []" and run2: "running (reports r2) = []"
    and eq: "running (reports ?r) \<noteq> [] \<or> False \<longrightarrow> r1 = r2\<lparr>shuttingDown := True\<rparr>"
    by blast
  have "running (reports ?r) \<noteq> []" by (simp add: reported_once_fields)
  with eq have "r1 = r2\<lparr>shuttingDown := True\<rparr>" by simp
  with sem s c run1 run2 show ?thesis by simp
qed

section \<open>Close at capacity\<close>

lemma ReportEvents_group_frame:
  "err (reports (snd (ReportEvents env evs mem r))) = err (reports r)"
  "cancelled (reports (snd (ReportEvents env evs mem r))) = cancelled (reports r)"
  "calls (client (snd (ReportEvents env evs mem r))) = calls (client r)"
  by (induction env evs mem r rule: ReportEvents.induct) (simp_all add: ReportEvent_frame)

lemma Close_at_capacity:
  assumes "sem (reports r) \<le> length (running (reports r))" and "running (reports r) \<noteq> []"
  shows "Close sched mem r = Close sched mem (next_goroutine sched mem r)"
proof -
  have "Go_op Abort r = None"
    using assms(1) by (simp add: Go_op_None)
  then have "await sched mem (Go_op Abort) r =
             await sched mem (Go_op Abort) (next_goroutine sched mem r)"
    using assms(2) by (rule await_blocked)
  then show ?thesis by (simp add: Close_def)
qed

lemma at_capacity_running: "running (reports (snd at_capacity)) = map Deliver [0..<16]"
proof -
  have h: "os_Getenv no_environ doNotTrackEnvName = []"
    by (rule no_environ_inactive)
  have f: "\<not> shuttingDown test_reporter" by (simp add: test_reporter_fields)
  have le: "length (running (reports test_reporter)) \<le> sem (reports test_reporter)"
    by (simp add: test_reporter_fields)
  have ps: "map snd sixteen_events = [0..<16]"
    by (simp add: sixteen_events_def)
  show ?thesis
    using ReportEvents_burst [OF h f le, of sixteen_events test_mem, THEN conjunct1]
    by (simp add: at_capacity_def test_reporter_fields ps)
qed

text \<open>
  Claim C6 says that \<^verbatim>\<open>Close\<close> injects one cancellation into the shared context,
  which reaches every in-flight delivery. With sixteen deliveries in flight the
  code does not do so: the \<^verbatim>\<open>Go\<close> of \<^verbatim>\<open>Close\<close> finds no free token and is blocked,
  nothing is cancelled, and \<^verbatim>\<open>Close\<close> goes on only after one of the deliveries
  has ended; that delivery invoked the client with a context that was not
  cancelled, and it left the context and the error of the group as they were.
\<close>

theorem Close_blocked_at_capacity:
  "length (running (reports (snd at_capacity))) = sem (reports (snd at_capacity)) \<and>
   running (reports (snd at_capacity)) ! 0 = Deliver 0 \<and>
   \<not> cancelled (reports (snd at_capacity)) \<and>
   Go Abort (reports (snd at_capacity)) = None \<and>
   Close fifo (fst at_capacity) (snd at_capacity) =
     Close fifo (fst at_capacity) (goroutine 0 http_ok (fst at_capacity) (snd at_capacity)) \<and>
   calls (client (goroutine 0 http_ok (fst at_capacity) (snd at_capacity))) =
     [(False, fst at_capacity 0)] \<and>
   \<not> cancelled (reports (goroutine 0 http_ok (fst at_capacity) (snd at_capacity))) \<and>
   err (reports (goroutine 0 http_ok (fst at_capacity) (snd at_capacity))) = None"
proof -
  let ?m = "fst at_capacity"
  let ?r = "snd at_capacity"
  have len: "length (running (reports ?r)) = sem (reports ?r)"
    by (simp add: at_capacity_facts)
  have i: "0 < length (running (reports ?r))"
    by (simp add: at_capacity_facts)
  have t: "running (reports ?r) ! 0 = Deliver 0"
    by (simp add: at_capacity_running)
  have nc: "\<not> cancelled (reports ?r)"
    by (simp add: at_capacity_def ReportEvents_group_frame test_reporter_fields)
  have ne: "err (reports ?r) = None"
    by (simp add: at_capacity_def ReportEvents_group_frame test_reporter_fields)
  have cl: "calls (client ?r) = []"
    by (simp add: at_capacity_def ReportEvents_group_frame test_reporter_fields)
  have go: "Go Abort (reports ?r) = None"
    by (simp add: Go_def len)
  have busy: "running (reports ?r) \<noteq> []" using i by simp
  have nx: "next_goroutine fifo ?m ?r = goroutine 0 http_ok ?m ?r"
    by (simp add: next_goroutine_def fifo_def)
  have blocked: "Close fifo ?m ?r = Close fifo ?m (goroutine 0 http_ok ?m ?r)"
    using Close_at_capacity [OF _ busy, of fifo ?m] len by (simp add: nx)
  have call: "calls (client (goroutine 0 http_ok ?m ?r)) = [(False, ?m 0)]"
    using nc by (simp add: goroutine_Deliver [OF i t] calls_client_ReportEvent Let_def cl)
  have nc': "\<not> cancelled (reports (goroutine 0 http_ok ?m ?r))"
    using nc by (simp add: goroutine_Deliver [OF i t] Let_def)
  have ne': "err (reports (goroutine 0 http_ok ?m ?r)) = None"
    using ne by (simp add: goroutine_Deliver [OF i t] Let_def)
  show ?thesis
    by (intro conjI) (rule len t nc go blocked call nc' ne')+
qed

end
